theory Spec2Isabelle
  imports Main "HOL-Library.Word"
begin

section \<open>Shared data model\<close>

text \<open>
  Byte strings (\<open>chromeos::Blob\<close>, \<open>std::string\<close> used as raw bytes) are lists of
  8-bit words; \<open>uint64_t\<close> and \<open>int64_t\<close> values are 64-bit words, read signed with
  \<open>sint\<close> where the source declares them signed.
\<close>

type_synonym byte = "8 word"
type_synonym blob = "byte list"
type_synonym uint64 = "64 word"
type_synonym int64 = "64 word"
type_synonym int32 = "32 word"

text \<open>\<open>BootControlInterface::Slot\<close> is an \<open>unsigned int\<close>.\<close>

type_synonym Slot = "32 word"

text \<open>The error codes of the pipeline that the two actions and the spec mention.\<close>

datatype ErrorCode =
    kSuccess
  | kError
  | kDownloadTransferError
  | kPayloadHashMismatchError
  | kPayloadSizeMismatchError
  | kSignedDeltaPayloadExpectedError
  | kDownloadInvalidMetadataSignature
  | kDownloadWriteError
  | kDownloadOperationExecutionError
  | kFilesystemVerifierError
  | kNewRootfsVerificationError

subsection \<open>install\_plan.cc\<close>

record Partition =
  name :: string
  source_path :: string
  source_size :: uint64
  source_hash :: blob
  target_path :: string
  target_size :: uint64
  target_hash :: blob
  run_postinstall :: bool

record InstallPlan =
  is_resume :: bool
  is_full_update :: bool
  download_url :: string
  payload_size :: uint64
  payload_hash :: string
  metadata_size :: uint64
  metadata_signature :: string
  source_slot :: Slot
  target_slot :: Slot
  partitions :: "Partition list"
  hash_checks_mandatory :: bool
  powerwash_required :: bool
  public_key_rsa :: string

text \<open>\<open>InstallPlan::Partition::operator==\<close>: all eight fields.\<close>

definition Partition_eq :: "Partition \<Rightarrow> Partition \<Rightarrow> bool" where
  "Partition_eq a b =
     (name a = name b \<and>
      source_path a = source_path b \<and>
      source_size a = source_size b \<and>
      source_hash a = source_hash b \<and>
      target_path a = target_path b \<and>
      target_size a = target_size b \<and>
      target_hash a = target_hash b \<and>
      run_postinstall a = run_postinstall b)"

text \<open>
  \<open>std::vector::operator==\<close> on the partition lists: equal sizes and elementwise
  \<open>Partition::operator==\<close>.
\<close>

fun vector_eq :: "Partition list \<Rightarrow> Partition list \<Rightarrow> bool" where
  "vector_eq [] [] = True"
| "vector_eq (a # as) (b # bs) = (Partition_eq a b \<and> vector_eq as bs)"
| "vector_eq _ _ = False"

text \<open>\<open>InstallPlan::operator==\<close>: the ten comparisons of the source, in its order.\<close>

definition InstallPlan_eq :: "InstallPlan \<Rightarrow> InstallPlan \<Rightarrow> bool" where
  "InstallPlan_eq this that =
     ((is_resume this = is_resume that) \<and>
      (is_full_update this = is_full_update that) \<and>
      (download_url this = download_url that) \<and>
      (payload_size this = payload_size that) \<and>
      (payload_hash this = payload_hash that) \<and>
      (metadata_size this = metadata_size that) \<and>
      (metadata_signature this = metadata_signature that) \<and>
      (source_slot this = source_slot that) \<and>
      (target_slot this = target_slot that) \<and>
      vector_eq (partitions this) (partitions that))"

text \<open>\<open>InstallPlan::operator!=\<close>.\<close>

definition InstallPlan_ne :: "InstallPlan \<Rightarrow> InstallPlan \<Rightarrow> bool" where
  "InstallPlan_ne this that = (\<not> InstallPlan_eq this that)"

text \<open>The default-constructed \<open>InstallPlan::Partition\<close>.\<close>

definition Partition_default :: Partition where
  "Partition_default =
     \<lparr>name = [], source_path = [], source_size = 0, source_hash = [],
      target_path = [], target_size = 0, target_hash = [], run_postinstall = False\<rparr>"

section \<open>The action framework\<close>

text \<open>
  The part of the \<open>Action\<close> base class the two actions use: the input object wired by
  the predecessor (\<open>HasInputObject\<close>, \<open>GetInputObject\<close>), the output pipe
  (\<open>HasOutputPipe\<close>, \<open>SetOutputObject\<close>) and the processor, which is seen only through
  the calls \<open>processor_->ActionComplete(this, code)\<close> it receives: \<open>completions\<close> lists
  their codes in the order of the calls. \<open>aborted\<close> is not a member: it records that
  the process died (a failed \<open>CHECK\<close>, a null dereference or an access outside a
  vector or a buffer).
\<close>

record Action =
  input_object :: "InstallPlan option"
  has_output_pipe :: bool
  output_object :: "InstallPlan option"
  completions :: "ErrorCode list"
  aborted :: bool

definition ActionComplete :: "ErrorCode \<Rightarrow> 'a Action_scheme \<Rightarrow> 'a Action_scheme" where
  "ActionComplete code a = a\<lparr>completions := completions a @ [code]\<rparr>"

definition SetOutputObject :: "InstallPlan \<Rightarrow> 'a Action_scheme \<Rightarrow> 'a Action_scheme" where
  "SetOutputObject plan a = a\<lparr>output_object := Some plan\<rparr>"

section \<open>filesystem\_verifier\_action.cc\<close>

datatype VerifierMode = kComputeSourceHash | kVerifyTargetHash

definition kReadFileBufferSize :: nat where
  "kReadFileBufferSize = 128 * 1024"

text \<open>
  Modelled from the spec: the two constants of \<open>payload_constants.h\<close>, which is not among
  the sources; the spec names the legacy partitions "root" and "kernel".
\<close>

definition kLegacyPartitionNameRoot :: string where
  "kLegacyPartitionNameRoot = ''root''"

definition kLegacyPartitionNameKernel :: string where
  "kLegacyPartitionNameKernel = ''kernel''"

text \<open>
  A \<open>chromeos::FileStream\<close> opened for reading: the path it was opened on, the bytes of
  the device from the current position on, and whether \<open>CloseBlocking\<close> has been called.
\<close>

record FileStream =
  stream_path :: string
  unread :: blob
  is_open :: bool

text \<open>
  The collaborators of the action, as parameters. None of them is among the sources.
  \<^item> \<open>GetPartitionDevice name slot\<close>: \<open>None\<close> when the call returns false (the output
    string is then left as it was), \<open>Some path\<close> when it returns true.
  \<^item> \<open>GetFilesystemSize path\<close>: the two \<open>int\<close> outputs \<open>(block_count, block_size)\<close>, or
    \<open>None\<close> when the probe returns false.
  \<^item> \<open>FileSize path\<close>: an \<open>off_t\<close>, negative on error.
  \<^item> \<open>FileStream_Open path\<close>: the contents of the device, or \<open>None\<close> when the stream
    cannot be opened.
  \<^item> \<open>ReadAsync_ok stream\<close>: whether \<open>ReadAsync\<close> accepts the request.
  \<^item> The hash calculator: its state is the data fed to it so far; \<open>Hash_Update_ok\<close> and
    \<open>Hash_Finalize_ok\<close> say whether \<open>Update\<close> and \<open>Finalize\<close> succeed and \<open>raw_hash\<close>
    is the digest of the data.
\<close>

record Collaborators =
  GetPartitionDevice :: "string \<Rightarrow> Slot \<Rightarrow> string option"
  GetFilesystemSize :: "string \<Rightarrow> (int32 \<times> int32) option"
  FileSize :: "string \<Rightarrow> int64"
  FileStream_Open :: "string \<Rightarrow> blob option"
  ReadAsync_ok :: "FileStream \<Rightarrow> bool"
  Hash_Update_ok :: "blob \<Rightarrow> blob \<Rightarrow> bool"
  Hash_Finalize_ok :: "blob \<Rightarrow> bool"
  raw_hash :: "blob \<Rightarrow> blob"

text \<open>
  The members of the action. \<open>hasher\<close> is \<open>None\<close> while \<open>hasher_\<close> is null and otherwise
  the data fed so far. Two fields are not members of the class: \<open>pending_read\<close> is the
  outstanding \<open>ReadAsync\<close> request (the number of bytes asked for) and \<open>opened\<close> lists
  the paths passed to \<open>FileStream::Open\<close>.
\<close>

record FilesystemVerifierAction = Action +
  verifier_mode :: VerifierMode
  install_plan :: InstallPlan
  partition_index :: nat
  remaining_size :: int64
  read_done :: bool
  cancelled :: bool
  src_stream :: "FileStream option"
  buffer :: blob
  hasher :: "blob option"
  pending_read :: "nat option"
  opened :: "string list"

text \<open>The constructor, with the pipes the processor wires before \<open>PerformAction\<close>.\<close>

definition FilesystemVerifierAction_new ::
  "VerifierMode \<Rightarrow> InstallPlan option \<Rightarrow> bool \<Rightarrow> FilesystemVerifierAction" where
  "FilesystemVerifierAction_new mode inp pipe =
     \<lparr>input_object = inp, has_output_pipe = pipe, output_object = None, completions = [],
      aborted = False,
      verifier_mode = mode,
      install_plan =
        \<lparr>is_resume = False, is_full_update = False, download_url = [], payload_size = 0,
         payload_hash = [], metadata_size = 0, metadata_signature = [],
         source_slot = - 1, target_slot = - 1, partitions = [],
         hash_checks_mandatory = False, powerwash_required = False, public_key_rsa = []\<rparr>,
      partition_index = 0, remaining_size = 0, read_done = False, cancelled = False,
      src_stream = None, buffer = [], hasher = None, pending_read = None, opened = []\<rparr>"

text \<open>
  \<open>Cleanup\<close>: resetting the stream drops the read that is in flight; no completion is
  delivered once \<open>cancelled_\<close> is set.
\<close>

definition Cleanup :: "ErrorCode \<Rightarrow> FilesystemVerifierAction \<Rightarrow> FilesystemVerifierAction" where
  "Cleanup code s =
     (let s1 = s\<lparr>src_stream := None, pending_read := None, buffer := []\<rparr> in
      if cancelled s1 then s1
      else
        ActionComplete code
          (if code = kSuccess \<and> has_output_pipe s1
           then SetOutputObject (install_plan s1) s1 else s1))"

definition TerminateProcessing :: "FilesystemVerifierAction \<Rightarrow> FilesystemVerifierAction" where
  "TerminateProcessing s = Cleanup kSuccess (s\<lparr>cancelled := True\<rparr>)"

definition IsCleanupPending :: "FilesystemVerifierAction \<Rightarrow> bool" where
  "IsCleanupPending s = (src_stream s \<noteq> None)"

text \<open>\<open>std::min\<close> on two \<open>int64_t\<close> values.\<close>

definition std_min :: "int64 \<Rightarrow> int64 \<Rightarrow> int64" where
  "std_min a b = (if sint b < sint a then b else a)"

text \<open>\<open>std::vector::resize\<close> on the byte buffer: new elements are zero.\<close>

definition resize :: "nat \<Rightarrow> blob \<Rightarrow> blob" where
  "resize n xs = take n xs @ replicate (n - length xs) 0"

text \<open>
  The first lines of \<open>ScheduleRead\<close>: the \<open>size_t\<close> that \<open>std::min\<close> of the buffer size and
  \<open>remaining_size_\<close> converts to.
\<close>

definition bytes_to_read :: "FilesystemVerifierAction \<Rightarrow> nat" where
  "bytes_to_read s = unat (std_min (of_nat (length (buffer s))) (remaining_size s))"

text \<open>
  The first half of \<open>OnReadDoneCallback\<close> (the \<open>if (bytes_read == 0) ... else ...\<close>
  statement): \<open>Inl\<close> is the state in which the callback returns from inside it, \<open>Inr\<close> the
  state in which control reaches the code after it.
\<close>

definition OnReadDoneCallback_account ::
  "Collaborators \<Rightarrow> nat \<Rightarrow> FilesystemVerifierAction \<Rightarrow>
     FilesystemVerifierAction + FilesystemVerifierAction" where
  "OnReadDoneCallback_account env bytes_read s =
     (if bytes_read = 0 then Inr (s\<lparr>read_done := True\<rparr>)
      else
        (let s1 = s\<lparr>remaining_size := remaining_size s - of_nat bytes_read\<rparr> in
         if read_done s1 then Inl (s1\<lparr>aborted := True\<rparr>)
         else
           (case hasher s1 of
              None \<Rightarrow> Inl (s1\<lparr>aborted := True\<rparr>)
            | Some d \<Rightarrow>
                if \<not> Hash_Update_ok env d (take bytes_read (buffer s1))
                then Inl (Cleanup kError s1)
                else Inr (s1\<lparr>hasher := Some (d @ take bytes_read (buffer s1))\<rparr>))))"

text \<open>
  The \<open>switch\<close> of \<open>FinishPartitionHashing\<close>: \<open>None\<close> when the target hash differs, else
  the state after the \<open>switch\<close>.
\<close>

definition FinishPartitionHashing_switch ::
  "Collaborators \<Rightarrow> blob \<Rightarrow> FilesystemVerifierAction \<Rightarrow> FilesystemVerifierAction option" where
  "FinishPartitionHashing_switch env d s =
     (let partition = partitions (install_plan s) ! partition_index s in
      case verifier_mode s of
        kComputeSourceHash \<Rightarrow>
          Some (s\<lparr>install_plan := (install_plan s)\<lparr>partitions :=
            (partitions (install_plan s))
              [partition_index s := partition\<lparr>source_hash := raw_hash env d\<rparr>]\<rparr>\<rparr>)
      | kVerifyTargetHash \<Rightarrow>
          if target_hash partition \<noteq> raw_hash env d then None else Some s)"

text \<open>
  The four member functions that call one another. \<open>StartPartitionHashing\<close> reads
  \<open>partitions[partition_index_]\<close> and \<open>FinishPartitionHashing\<close> does so too: an index
  beyond the vector is an abort of the model.
\<close>

function
  StartPartitionHashing :: "Collaborators \<Rightarrow> FilesystemVerifierAction \<Rightarrow> FilesystemVerifierAction"
  and ScheduleRead :: "Collaborators \<Rightarrow> FilesystemVerifierAction \<Rightarrow> FilesystemVerifierAction"
  and OnReadDoneCallback ::
    "Collaborators \<Rightarrow> nat \<Rightarrow> FilesystemVerifierAction \<Rightarrow> FilesystemVerifierAction"
  and FinishPartitionHashing ::
    "Collaborators \<Rightarrow> FilesystemVerifierAction \<Rightarrow> FilesystemVerifierAction"
where
  "StartPartitionHashing env s =
     (if partition_index s = length (partitions (install_plan s)) then Cleanup kSuccess s
      else if length (partitions (install_plan s)) < partition_index s
      then s\<lparr>aborted := True\<rparr>
      else
        (let partition = partitions (install_plan s) ! partition_index s;
             part_path =
               (case verifier_mode s of
                  kComputeSourceHash \<Rightarrow>
                    (case GetPartitionDevice env (name partition) (source_slot (install_plan s)) of
                       None \<Rightarrow> [] | Some p \<Rightarrow> p)
                | kVerifyTargetHash \<Rightarrow>
                    (case GetPartitionDevice env (name partition) (target_slot (install_plan s)) of
                       None \<Rightarrow> [] | Some p \<Rightarrow> p));
             s1 = s\<lparr>remaining_size :=
                    (case verifier_mode s of
                       kComputeSourceHash \<Rightarrow> source_size partition
                     | kVerifyTargetHash \<Rightarrow> target_size partition)\<rparr>
         in if part_path = [] then Cleanup kFilesystemVerifierError s1
            else
              (case FileStream_Open env part_path of
                 None \<Rightarrow>
                   Cleanup kFilesystemVerifierError
                     (s1\<lparr>src_stream := None, opened := opened s1 @ [part_path]\<rparr>)
               | Some data \<Rightarrow>
                   ScheduleRead env
                     (s1\<lparr>src_stream :=
                           Some \<lparr>stream_path = part_path, unread = data, is_open = True\<rparr>,
                         opened := opened s1 @ [part_path],
                         buffer := resize kReadFileBufferSize (buffer s1),
                         read_done := False,
                         hasher := Some []\<rparr>))))"
| "ScheduleRead env s =
     (if bytes_to_read s = 0 then OnReadDoneCallback env 0 s
      else
        (case src_stream s of
           None \<Rightarrow> s\<lparr>aborted := True\<rparr>
         | Some st \<Rightarrow>
             if \<not> ReadAsync_ok env st then Cleanup kError s
             else s\<lparr>pending_read := Some (bytes_to_read s)\<rparr>))"
| "OnReadDoneCallback env bytes_read s =
     (case OnReadDoneCallback_account env bytes_read s of
        Inl s' \<Rightarrow> s'
      | Inr s1 \<Rightarrow>
          if cancelled s1 then Cleanup kError s1
          else if read_done s1 \<or> remaining_size s1 = 0 then
            (if remaining_size s1 \<noteq> 0 then Cleanup kFilesystemVerifierError s1
             else FinishPartitionHashing env s1)
          else ScheduleRead env s1)"
| "FinishPartitionHashing env s =
     (case hasher s of
        None \<Rightarrow> s\<lparr>aborted := True\<rparr>
      | Some d \<Rightarrow>
          if \<not> Hash_Finalize_ok env d then Cleanup kError s
          else if length (partitions (install_plan s)) \<le> partition_index s
          then s\<lparr>aborted := True\<rparr>
          else
            (case FinishPartitionHashing_switch env d s of
               None \<Rightarrow> Cleanup kNewRootfsVerificationError s
             | Some s1 \<Rightarrow>
                 (case src_stream s1 of
                    None \<Rightarrow> s1\<lparr>aborted := True\<rparr>
                  | Some st \<Rightarrow>
                      StartPartitionHashing env
                        (s1\<lparr>partition_index := partition_index s1 + 1,
                            hasher := None,
                            buffer := [],
                            src_stream := Some (st\<lparr>is_open := False\<rparr>)\<rparr>))))"
  by pat_completeness auto

termination
  apply (relation "measure (\<lambda>x. case x of
      Inl (Inl (env, s)) \<Rightarrow>
        6 * (length (partitions (install_plan s)) - partition_index s) + 5
    | Inl (Inr (env, s)) \<Rightarrow>
        6 * (length (partitions (install_plan s)) - partition_index s) + 3
    | Inr (Inl (env, n, s)) \<Rightarrow>
        6 * (length (partitions (install_plan s)) - partition_index s)
          + (if n = 0 then 2 else 4)
    | Inr (Inr (env, s)) \<Rightarrow>
        6 * (length (partitions (install_plan s)) - partition_index s) + 1)")
       apply simp
      apply simp
     apply simp
    apply (auto simp: OnReadDoneCallback_account_def Let_def
      split: if_splits option.splits)[1]
   apply (auto simp: OnReadDoneCallback_account_def Let_def
      split: if_splits option.splits)[1]
  apply (auto simp: FinishPartitionHashing_switch_def Let_def
      split: if_splits VerifierMode.splits)[1]
  done

declare StartPartitionHashing.simps [simp del]
declare ScheduleRead.simps [simp del]
declare OnReadDoneCallback.simps [simp del]
declare FinishPartitionHashing.simps [simp del]

definition OnReadErrorCallback :: "FilesystemVerifierAction \<Rightarrow> FilesystemVerifierAction" where
  "OnReadErrorCallback s = Cleanup kError s"

text \<open>
  The legacy block of \<open>PerformAction\<close> (the \<open>if\<close> statement on delta updates with no
  partitions): \<open>Inl\<close> is the state at one of its three \<open>return\<close> statements, \<open>Inr\<close> the
  state in which control leaves the block. The local \<open>part\<close> is reused for the second
  entry, so the kernel entry is a copy of the root entry with \<open>name\<close> and \<open>source_size\<close>
  overwritten. The product is computed in \<open>int64_t\<close> and stored in the \<open>uint64_t\<close> field.
\<close>

definition push_back :: "Partition \<Rightarrow> FilesystemVerifierAction \<Rightarrow> FilesystemVerifierAction" where
  "push_back part s =
     s\<lparr>install_plan := (install_plan s)\<lparr>partitions := partitions (install_plan s) @ [part]\<rparr>\<rparr>"

definition PerformAction_legacy ::
  "Collaborators \<Rightarrow> FilesystemVerifierAction \<Rightarrow>
     FilesystemVerifierAction + FilesystemVerifierAction" where
  "PerformAction_legacy env s =
     (if \<not> is_full_update (install_plan s) \<and> partitions (install_plan s) = [] \<and>
         verifier_mode s = kComputeSourceHash
      then
        (let part = Partition_default\<lparr>name := kLegacyPartitionNameRoot\<rparr> in
         case GetPartitionDevice env (name part) (source_slot (install_plan s)) of
           None \<Rightarrow> Inl s
         | Some part_path \<Rightarrow>
             (let part1 =
                    (case GetFilesystemSize env part_path of
                       Some (block_count, block_size) \<Rightarrow>
                         part\<lparr>source_size := scast block_count * scast block_size\<rparr>
                     | None \<Rightarrow> part);
                  s1 = push_back part1 s;
                  part2 = part1\<lparr>name := kLegacyPartitionNameKernel\<rparr>
              in case GetPartitionDevice env (name part2) (source_slot (install_plan s1)) of
                   None \<Rightarrow> Inl s1
                 | Some part_path2 \<Rightarrow>
                     (let kernel_part_size = FileSize env part_path2 in
                      if sint kernel_part_size < 0 then Inl s1
                      else Inr (push_back (part2\<lparr>source_size := kernel_part_size\<rparr>) s1))))
      else Inr s)"

text \<open>
  Modelled from the spec: \<open>ScopedActionCompleter\<close> is not among the sources. The guard
  calls \<open>ActionComplete\<close> with its code (\<open>kError\<close> unless \<open>set_code\<close> changed it) when
  control leaves \<open>PerformAction\<close>, unless \<open>set_should_complete(false)\<close> disarmed it.
\<close>

definition PerformAction :: "Collaborators \<Rightarrow> FilesystemVerifierAction \<Rightarrow> FilesystemVerifierAction" where
  "PerformAction env s =
     (case input_object s of
        None \<Rightarrow> ActionComplete kError s
      | Some plan \<Rightarrow>
          (case PerformAction_legacy env (s\<lparr>install_plan := plan\<rparr>) of
             Inl s' \<Rightarrow> ActionComplete kError s'
           | Inr s1 \<Rightarrow>
               if partitions (install_plan s1) = [] then
                 ActionComplete kSuccess
                   (if has_output_pipe s1 then SetOutputObject (install_plan s1) s1 else s1)
               else StartPartitionHashing env s1))"

subsection \<open>The message loop\<close>

text \<open>
  What reaches the action after \<open>PerformAction\<close> returned. \<open>ReadDone k\<close>: the read in
  flight completes; the stream delivers no byte at the end of the device and otherwise
  at least one byte and at most \<open>k\<close>, at most the number asked for and at most what is left
  of the device. The bytes are in the buffer when \<open>OnReadDoneCallback\<close> runs; a read
  larger than the buffer is an abort of the model. \<open>ReadError\<close>: the read in flight fails.
  \<open>Terminate\<close>: the processor calls \<open>TerminateProcessing\<close>, which it does only on an
  action that has not completed. Nothing reaches an action whose process died.
\<close>

datatype Event = ReadDone nat | ReadError | Terminate

definition delivered :: "nat \<Rightarrow> nat \<Rightarrow> FileStream \<Rightarrow> nat" where
  "delivered k r st =
     (if unread st = [] then 0 else max 1 (min k (min r (length (unread st)))))"

definition fill_buffer ::
  "nat \<Rightarrow> FileStream \<Rightarrow> FilesystemVerifierAction \<Rightarrow> FilesystemVerifierAction" where
  "fill_buffer n st s =
     s\<lparr>pending_read := None,
       src_stream := Some (st\<lparr>unread := drop n (unread st)\<rparr>),
       buffer := take n (unread st) @ drop n (buffer s)\<rparr>"

definition dispatch :: "Collaborators \<Rightarrow> Event \<Rightarrow> FilesystemVerifierAction \<Rightarrow> FilesystemVerifierAction" where
  "dispatch env ev s =
     (if aborted s then s
      else
        (case ev of
           ReadDone k \<Rightarrow>
             (case pending_read s of
                None \<Rightarrow> s
              | Some r \<Rightarrow>
                  (case src_stream s of
                     None \<Rightarrow> s
                   | Some st \<Rightarrow>
                       if length (buffer s) < delivered k r st then s\<lparr>aborted := True\<rparr>
                       else OnReadDoneCallback env (delivered k r st)
                              (fill_buffer (delivered k r st) st s)))
         | ReadError \<Rightarrow>
             (case pending_read s of
                None \<Rightarrow> s
              | Some r \<Rightarrow> OnReadErrorCallback (s\<lparr>pending_read := None\<rparr>))
         | Terminate \<Rightarrow> if completions s = [] then TerminateProcessing s else s))"

text \<open>A run of the action: \<open>PerformAction\<close> on the constructed action, then the events.\<close>

definition run_verifier ::
  "Collaborators \<Rightarrow> VerifierMode \<Rightarrow> InstallPlan option \<Rightarrow> bool \<Rightarrow> Event list
     \<Rightarrow> FilesystemVerifierAction" where
  "run_verifier env mode inp pipe evs =
     foldl (\<lambda>s ev. dispatch env ev s)
       (PerformAction env (FilesystemVerifierAction_new mode inp pipe)) evs"

subsection \<open>Predicates on the states of the verifier\<close>

text \<open>
  The device and the size \<open>StartPartitionHashing\<close> uses for a partition in a mode, and
  what the spec asks of a verified partition: the device opens, holds at least
  \<open>target_size\<close> bytes, and the digest of its first \<open>target_size\<close> bytes is
  \<open>target_hash\<close>.
\<close>

definition device_of :: "Collaborators \<Rightarrow> VerifierMode \<Rightarrow> InstallPlan \<Rightarrow> Partition \<Rightarrow> string" where
  "device_of env mode plan p =
     (case GetPartitionDevice env (name p)
             (case mode of kComputeSourceHash \<Rightarrow> source_slot plan
                         | kVerifyTargetHash \<Rightarrow> target_slot plan) of
        None \<Rightarrow> [] | Some d \<Rightarrow> d)"

definition size_of :: "VerifierMode \<Rightarrow> Partition \<Rightarrow> uint64" where
  "size_of mode p =
     (case mode of kComputeSourceHash \<Rightarrow> source_size p | kVerifyTargetHash \<Rightarrow> target_size p)"

definition target_hash_matches :: "Collaborators \<Rightarrow> InstallPlan \<Rightarrow> Partition \<Rightarrow> bool" where
  "target_hash_matches env plan p =
     (case FileStream_Open env (device_of env kVerifyTargetHash plan p) of
        None \<Rightarrow> False
      | Some content \<Rightarrow>
          unat (target_size p) \<le> length content \<and>
          raw_hash env (take (unat (target_size p)) content) = target_hash p)"

text \<open>
  \<open>verified_prefix\<close>: in the verifying mode every partition before \<open>partition_index_\<close>
  is verified. \<open>hashing env n\<close>: a partition is being read, \<open>n\<close> bytes sit in the buffer
  not yet given to the hash calculator, the hashed bytes, the buffered bytes and the
  unread rest make up the device, and \<open>remaining_size_\<close> is what is still missing of
  the size. \<open>ready\<close>: the action runs, with no read in flight. \<open>settled\<close>: a state
  between two callbacks: a read is in flight on a partition being hashed, or the action
  is over, with one completion, or none when it was cancelled.
\<close>

definition verified_prefix :: "Collaborators \<Rightarrow> FilesystemVerifierAction \<Rightarrow> bool" where
  "verified_prefix env s =
     (verifier_mode s = kVerifyTargetHash \<longrightarrow>
        list_all (target_hash_matches env (install_plan s))
          (take (partition_index s) (partitions (install_plan s))))"

definition hashing :: "Collaborators \<Rightarrow> nat \<Rightarrow> FilesystemVerifierAction \<Rightarrow> bool" where
  "hashing env n s =
     (case src_stream s of
        None \<Rightarrow> False
      | Some st \<Rightarrow>
          (case hasher s of
             None \<Rightarrow> False
           | Some d \<Rightarrow>
               partition_index s < length (partitions (install_plan s)) \<and>
               (let p = partitions (install_plan s) ! partition_index s in
                stream_path st = device_of env (verifier_mode s) (install_plan s) p \<and>
                FileStream_Open env (stream_path st) = Some (d @ take n (buffer s) @ unread st) \<and>
                length d + unat (remaining_size s) = unat (size_of (verifier_mode s) p) \<and>
                n \<le> unat (remaining_size s) \<and> n \<le> length (buffer s) \<and>
                length (buffer s) = kReadFileBufferSize)))"

definition ready :: "Collaborators \<Rightarrow> FilesystemVerifierAction \<Rightarrow> bool" where
  "ready env s =
     (\<not> aborted s \<and> \<not> cancelled s \<and> completions s = [] \<and> pending_read s = None \<and>
      partition_index s \<le> length (partitions (install_plan s)) \<and> verified_prefix env s)"

definition settled :: "Collaborators \<Rightarrow> FilesystemVerifierAction \<Rightarrow> bool" where
  "settled env s =
     (\<not> aborted s \<and> verified_prefix env s \<and>
      partition_index s \<le> length (partitions (install_plan s)) \<and>
      (case pending_read s of
         Some r \<Rightarrow>
           \<not> cancelled s \<and> completions s = [] \<and> \<not> read_done s \<and>
           r = bytes_to_read s \<and> r \<noteq> 0 \<and> hashing env 0 s
       | None \<Rightarrow>
           src_stream s = None \<and>
           (if cancelled s then completions s = [] else length (completions s) = 1)))"

subsection \<open>A concrete device and plan\<close>

text \<open>
  Collaborators for concrete runs: two devices, \<open>/dev/root\<close> of three bytes and
  \<open>/dev/kernel\<close> of one byte, a probe that reports two blocks of 4096 bytes, and a
  checksum byte standing for the digest.
\<close>

definition test_env :: Collaborators where
  "test_env =
     \<lparr>GetPartitionDevice =
        (\<lambda>n slot. if n = ''root'' then Some ''/dev/root''
                   else if n = ''kernel'' then Some ''/dev/kernel'' else None),
      GetFilesystemSize = (\<lambda>path. Some (2, 4096)),
      FileSize = (\<lambda>path. 1),
      FileStream_Open =
        (\<lambda>path. if path = ''/dev/root'' then Some [1, 2, 3]
                 else if path = ''/dev/kernel'' then Some [7] else None),
      ReadAsync_ok = (\<lambda>st. True),
      Hash_Update_ok = (\<lambda>d c. True),
      Hash_Finalize_ok = (\<lambda>d. True),
      raw_hash = (\<lambda>d. [sum_list d])\<rparr>"

definition test_partition :: "string \<Rightarrow> uint64 \<Rightarrow> blob \<Rightarrow> Partition" where
  "test_partition n sz h =
     Partition_default\<lparr>name := n, target_size := sz, target_hash := h\<rparr>"

definition test_plan :: "Partition list \<Rightarrow> InstallPlan" where
  "test_plan ps =
     \<lparr>is_resume = False, is_full_update = False, download_url = ''http://host/payload'',
      payload_size = 4, payload_hash = ''hash'', metadata_size = 0, metadata_signature = [],
      source_slot = 0, target_slot = 1, partitions = ps,
      hash_checks_mandatory = False, powerwash_required = False, public_key_rsa = []\<rparr>"

text \<open>
  \<open>same_plan s s'\<close>: the mode is the same and, in the verifying mode, so is the plan.
\<close>

definition same_plan :: "FilesystemVerifierAction \<Rightarrow> FilesystemVerifierAction \<Rightarrow> bool" where
  "same_plan s s' =
     (verifier_mode s' = verifier_mode s \<and>
      (verifier_mode s = kVerifyTargetHash \<longrightarrow> install_plan s' = install_plan s))"

text \<open>
  \<open>success_at_end s\<close>: \<open>kSuccess\<close> was delivered only with \<open>partition_index_\<close> at the
  end of the partitions.
\<close>

definition success_at_end :: "FilesystemVerifierAction \<Rightarrow> bool" where
  "success_at_end s =
     (kSuccess \<in> set (completions s) \<longrightarrow>
        partition_index s = length (partitions (install_plan s)))"

section \<open>download\_action.cc\<close>

text \<open>
  Modelled from the spec: the \<open>P2PManager\<close> is not among the sources. Its directory maps
  a file id to the share file: the bytes written so far and whether the file is visible
  to peers. \<open>FileShare\<close> creates the file, empty and hidden, when the directory has none
  for the id, and leaves a file that exists as it is; \<open>FileGetVisible\<close> reads the
  visibility of a file that exists; \<open>FileMakeVisible\<close> makes a file that exists visible;
  \<open>FileGetPath\<close> finds a path exactly when the file exists, so \<open>unlink\<close> of that path
  removes the file when there is one.
\<close>

record P2PFile =
  file_data :: blob
  file_visible :: bool

type_synonym P2PDir = "string \<Rightarrow> P2PFile option"

definition FileShare :: "string \<Rightarrow> uint64 \<Rightarrow> P2PDir \<Rightarrow> P2PDir" where
  "FileShare file_id expected_size dir =
     (case dir file_id of
        None \<Rightarrow> dir(file_id \<mapsto> \<lparr>file_data = [], file_visible = False\<rparr>)
      | Some f \<Rightarrow> dir)"

definition FileMakeVisible :: "string \<Rightarrow> P2PDir \<Rightarrow> P2PDir" where
  "FileMakeVisible file_id dir =
     (case dir file_id of
        None \<Rightarrow> dir
      | Some f \<Rightarrow> dir(file_id \<mapsto> f\<lparr>file_visible := True\<rparr>))"

definition unlink :: "string \<Rightarrow> P2PDir \<Rightarrow> P2PDir" where
  "unlink file_id dir = dir(file_id := None)"

text \<open>\<open>write\<close> of all the bytes at a position of the file.\<close>

definition write_at :: "nat \<Rightarrow> blob \<Rightarrow> blob \<Rightarrow> blob" where
  "write_at pos bytes old =
     take pos old @ replicate (pos - length old) 0 @ bytes @ drop (pos + length bytes) old"

text \<open>
  What the world answers during one callback, as parameters: the results of the system
  calls on the share file, of the P2P manager's \<open>FileShare\<close>, of the payload state and
  of the applier. \<open>Write_result\<close> is the value \<open>writer_->Write\<close> returns together with
  the code it stores through its third argument; \<open>open_fd\<close> is what \<open>open\<close> returns,
  \<open>-1\<close> on failure. \<open>CalculateP2PFileId\<close> is the function of \<open>utils\<close>, which is not
  among the sources.
\<close>

record Sys =
  FileShare_ok :: bool
  open_fd :: int
  fchmod_ok :: bool
  FileSize_ok :: bool
  lseek_ok :: bool
  write_ok :: bool
  Write_result :: "bool \<times> ErrorCode"
  IsManifestValid :: bool
  VerifyPayload_result :: ErrorCode
  GetUsingP2PForSharing :: bool
  GetUsingP2PForDownloading :: bool
  GetP2PUrl :: string
  CalculateP2PFileId :: "string \<Rightarrow> uint64 \<Rightarrow> string"

text \<open>
  \<open>writer_\<close> points to a writer injected for a test or to the action's own
  \<open>DeltaPerformer\<close>.
\<close>

datatype FileWriter = TestWriter | DeltaPerformerWriter

text \<open>
  The members of the action (\<open>delta_performer\<close>, \<open>delegate\<close> and \<open>system_state\<close> say
  whether the pointer is set), then what the action did to its collaborators: the
  P2P directory, the position of the descriptor in the share file, the \<open>write\<close> calls
  on the share file (position and bytes), the blocks given to
  \<open>writer_->Write\<close>, the calls of \<open>writer_->Close\<close>, of \<open>TerminateTransfer\<close>,
  \<open>BeginTransfer\<close>, \<open>VerifyPayload\<close>, \<open>FileMakeVisible\<close>, \<open>SetDownloadStatus\<close>,
  \<open>BytesReceived\<close> and \<open>MarkSlotUnbootable\<close>, and whether the fetcher was tuned for a
  download from a peer.
\<close>

record DownloadAction = Action +
  system_state :: bool
  da_install_plan :: InstallPlan
  writer :: "FileWriter option"
  delta_performer :: bool
  code :: ErrorCode
  delegate :: bool
  bytes_received :: uint64
  p2p_sharing_fd :: int
  p2p_visible :: bool
  p2p_file_id :: string
  p2p_dir :: P2PDir
  p2p_fd_pos :: nat
  p2p_writes :: "(nat \<times> blob) list"
  written :: "blob list"
  writer_closed :: nat
  terminate_requests :: nat
  transfers :: "string list"
  verify_calls :: "(string \<times> uint64) list"
  make_visible_calls :: "string list"
  download_status :: "bool list"
  progress :: "(uint64 \<times> uint64) list"
  unbootable :: "Slot list"
  fetcher_tuned :: bool

text \<open>
  The constructor, then the setters and the pipes: a test may inject a writer, the
  owner may set a delegate, and the P2P directory is what earlier runs left.
\<close>

definition DownloadAction_new ::
  "bool \<Rightarrow> FileWriter option \<Rightarrow> bool \<Rightarrow> InstallPlan option \<Rightarrow> bool \<Rightarrow> P2PDir
     \<Rightarrow> DownloadAction" where
  "DownloadAction_new sysstate test_writer deleg inp pipe dir =
     \<lparr>input_object = inp, has_output_pipe = pipe, output_object = None, completions = [],
      aborted = False,
      system_state = sysstate,
      da_install_plan =
        \<lparr>is_resume = False, is_full_update = False, download_url = [], payload_size = 0,
         payload_hash = [], metadata_size = 0, metadata_signature = [],
         source_slot = - 1, target_slot = - 1, partitions = [],
         hash_checks_mandatory = False, powerwash_required = False, public_key_rsa = []\<rparr>,
      writer = test_writer, delta_performer = False, code = kSuccess, delegate = deleg,
      bytes_received = 0, p2p_sharing_fd = - 1, p2p_visible = True, p2p_file_id = [],
      p2p_dir = dir, p2p_fd_pos = 0, p2p_writes = [], written = [], writer_closed = 0,
      terminate_requests = 0, transfers = [], verify_calls = [], make_visible_calls = [],
      download_status = [], progress = [], unbootable = [], fetcher_tuned = False\<rparr>"

text \<open>
  \<open>CloseP2PSharingFd\<close>. The results of \<open>close\<close> and \<open>unlink\<close> are only logged.
\<close>

definition CloseP2PSharingFd :: "bool \<Rightarrow> DownloadAction \<Rightarrow> DownloadAction" where
  "CloseP2PSharingFd delete_p2p_file s =
     (let s1 = (if p2p_sharing_fd s \<noteq> - 1 then s\<lparr>p2p_sharing_fd := - 1\<rparr> else s);
          s2 = (if delete_p2p_file
                then s1\<lparr>p2p_dir := unlink (p2p_file_id s1) (p2p_dir s1)\<rparr> else s1)
      in s2\<lparr>p2p_file_id := []\<rparr>)"

definition SetupP2PSharingFd :: "Sys \<Rightarrow> DownloadAction \<Rightarrow> bool \<times> DownloadAction" where
  "SetupP2PSharingFd sys s =
     (if \<not> FileShare_ok sys then (False, CloseP2PSharingFd True s)
      else
        (let s1 = s\<lparr>p2p_dir :=
                    FileShare (p2p_file_id s) (payload_size (da_install_plan s)) (p2p_dir s)\<rparr>;
             s2 = s1\<lparr>p2p_sharing_fd := open_fd sys, p2p_fd_pos := 0\<rparr>
         in if p2p_sharing_fd s2 = - 1 then (False, CloseP2PSharingFd True s2)
            else if \<not> fchmod_ok sys then (False, CloseP2PSharingFd True s2)
            else
              (True,
               (case p2p_dir s2 (p2p_file_id s2) of
                  None \<Rightarrow> s2
                | Some f \<Rightarrow> s2\<lparr>p2p_visible := file_visible f\<rparr>))))"

text \<open>
  \<open>utils::FileSize\<close> on the descriptor of the share file: an \<open>off_t\<close>, negative on
  error. \<open>lseek\<close> with \<open>SEEK_SET\<close>: the new position, or \<open>-1\<close> on error, which a
  negative offset always is.
\<close>

definition lseek :: "Sys \<Rightarrow> int \<Rightarrow> int" where
  "lseek sys offset = (if lseek_ok sys \<and> 0 \<le> offset then offset else - 1)"

definition FileSize_fd :: "Sys \<Rightarrow> DownloadAction \<Rightarrow> int" where
  "FileSize_fd sys s =
     (case p2p_dir s (p2p_file_id s) of
        None \<Rightarrow> - 1
      | Some f \<Rightarrow> if FileSize_ok sys then int (length (file_data f)) else - 1)"

definition WriteToP2PFile :: "Sys \<Rightarrow> blob \<Rightarrow> uint64 \<Rightarrow> DownloadAction \<Rightarrow> DownloadAction" where
  "WriteToP2PFile sys data file_offset s =
     (case (if p2p_sharing_fd s = - 1 then SetupP2PSharingFd sys s else (True, s)) of
        (False, s1) \<Rightarrow> s1
      | (True, s1) \<Rightarrow>
          (let p2p_size = FileSize_fd sys s1 in
           if p2p_size < 0 then CloseP2PSharingFd True s1
           else if p2p_size < sint file_offset then CloseP2PSharingFd True s1
           else
             (let cur_file_offset = lseek sys (sint file_offset) in
              if cur_file_offset \<noteq> sint file_offset then CloseP2PSharingFd True s1
              else
                (let s2 = (if 0 \<le> cur_file_offset
                           then s1\<lparr>p2p_fd_pos := nat cur_file_offset\<rparr> else s1)
                 in if \<not> write_ok sys then CloseP2PSharingFd True s2
                    else
                      (case p2p_dir s2 (p2p_file_id s2) of
                         None \<Rightarrow> s2
                       | Some f \<Rightarrow>
                           s2\<lparr>p2p_dir := (p2p_dir s2)(p2p_file_id s2 \<mapsto>
                                  f\<lparr>file_data := write_at (p2p_fd_pos s2) data (file_data f)\<rparr>),
                              p2p_fd_pos := p2p_fd_pos s2 + length data,
                              p2p_writes := p2p_writes s2 @ [(p2p_fd_pos s2, data)]\<rparr>)))))"

text \<open>
  \<open>DownloadAction::PerformAction\<close>. \<open>CHECK(HasInputObject())\<close> ends the process when
  no input is wired, and so does the call through \<open>system_state_\<close> when that pointer is
  null. The result of \<open>MarkSlotUnbootable\<close> is only logged.
\<close>

definition DownloadAction_PerformAction :: "Sys \<Rightarrow> DownloadAction \<Rightarrow> DownloadAction" where
  "DownloadAction_PerformAction sys s =
     (case input_object s of
        None \<Rightarrow> s\<lparr>aborted := True\<rparr>
      | Some plan \<Rightarrow>
          (let s1 = s\<lparr>da_install_plan := plan, bytes_received := 0\<rparr> in
           if \<not> system_state s1 then s1\<lparr>aborted := True\<rparr>
           else
          (let s2 = s1\<lparr>unbootable := unbootable s1 @ [target_slot plan]\<rparr>;
               s3 = (if writer s2 \<noteq> None then s2
                     else s2\<lparr>delta_performer := True, writer := Some DeltaPerformerWriter\<rparr>);
               s4 = (if delegate s3
                     then s3\<lparr>download_status := download_status s3 @ [True]\<rparr> else s3);
               s5 =
                 (if system_state s4 then
                    (let file_id = CalculateP2PFileId sys (payload_hash plan) (payload_size plan);
                         s' = (if GetUsingP2PForSharing sys then s4\<lparr>p2p_file_id := file_id\<rparr>
                               else s4\<lparr>p2p_dir := unlink file_id (p2p_dir s4)\<rparr>)
                     in if GetUsingP2PForDownloading sys \<and> GetP2PUrl sys = download_url plan
                        then s'\<lparr>fetcher_tuned := True\<rparr> else s')
                  else s4)
           in s5\<lparr>transfers := transfers s5 @ [download_url plan]\<rparr>)))"

definition DownloadAction_TerminateProcessing :: "DownloadAction \<Rightarrow> DownloadAction" where
  "DownloadAction_TerminateProcessing s =
     (let s1 = (case writer s of
                  None \<Rightarrow> s
                | Some w \<Rightarrow> s\<lparr>writer_closed := writer_closed s + 1, writer := None\<rparr>);
          s2 = (if delegate s1
                then s1\<lparr>download_status := download_status s1 @ [False]\<rparr> else s1);
          s3 = CloseP2PSharingFd False s2
      in s3\<lparr>terminate_requests := terminate_requests s3 + 1\<rparr>)"

definition SeekToOffset :: "uint64 \<Rightarrow> DownloadAction \<Rightarrow> DownloadAction" where
  "SeekToOffset offset s = s\<lparr>bytes_received := offset\<rparr>"

text \<open>The last statement of \<open>ReceivedBytes\<close>: the file is made visible.\<close>

definition ReceivedBytes_promote :: "Sys \<Rightarrow> DownloadAction \<Rightarrow> DownloadAction" where
  "ReceivedBytes_promote sys s =
     (if \<not> p2p_visible s \<and> delta_performer s \<and> IsManifestValid sys
      then s\<lparr>p2p_dir := FileMakeVisible (p2p_file_id s) (p2p_dir s),
             make_visible_calls := make_visible_calls s @ [p2p_file_id s],
             p2p_visible := True\<rparr>
      else s)"

definition ReceivedBytes :: "Sys \<Rightarrow> blob \<Rightarrow> DownloadAction \<Rightarrow> DownloadAction" where
  "ReceivedBytes sys bytes s =
     (let s1 = (if p2p_file_id s \<noteq> [] then WriteToP2PFile sys bytes (bytes_received s) s
                else s);
          s2 = s1\<lparr>bytes_received := bytes_received s1 + of_nat (length bytes)\<rparr>;
          s3 = (if delegate s2
                then s2\<lparr>progress := progress s2 @
                       [(bytes_received s2, payload_size (da_install_plan s2))]\<rparr>
                else s2)
      in case writer s3 of
           None \<Rightarrow> ReceivedBytes_promote sys s3
         | Some w \<Rightarrow>
             (let s4 = s3\<lparr>written := written s3 @ [bytes], code := snd (Write_result sys)\<rparr>
              in if \<not> fst (Write_result sys) then
                   DownloadAction_TerminateProcessing
                     (if p2p_file_id s4 \<noteq> [] then CloseP2PSharingFd True s4 else s4)
                 else ReceivedBytes_promote sys s4))"

definition TransferComplete :: "Sys \<Rightarrow> bool \<Rightarrow> DownloadAction \<Rightarrow> DownloadAction" where
  "TransferComplete sys successful s =
     (let s1 = (case writer s of
                  None \<Rightarrow> s
                | Some w \<Rightarrow> s\<lparr>writer_closed := writer_closed s + 1, writer := None\<rparr>);
          s2 = (if delegate s1
                then s1\<lparr>download_status := download_status s1 @ [False]\<rparr> else s1);
          code0 = (if successful then kSuccess else kDownloadTransferError);
          s3 = (if code0 = kSuccess \<and> delta_performer s2
                then s2\<lparr>verify_calls := verify_calls s2 @
                       [(payload_hash (da_install_plan s2), payload_size (da_install_plan s2))]\<rparr>
                else s2);
          code1 = (if code0 = kSuccess \<and> delta_performer s2
                   then VerifyPayload_result sys else code0);
          s4 = (if code0 = kSuccess \<and> delta_performer s2 \<and> code1 \<noteq> kSuccess \<and>
                   p2p_file_id s3 \<noteq> []
                then CloseP2PSharingFd True s3 else s3);
          s5 = (if code1 = kSuccess \<and> has_output_pipe s4
                then SetOutputObject (da_install_plan s4) s4 else s4)
      in ActionComplete code1 s5)"

definition TransferTerminated :: "DownloadAction \<Rightarrow> DownloadAction" where
  "TransferTerminated s =
     (if code s \<noteq> kSuccess then ActionComplete (code s) s else s)"

subsection \<open>The callbacks of a download\<close>

text \<open>
  What reaches the action after \<open>PerformAction\<close>: the callbacks of the fetcher, each
  with the answers of the world during it, and \<open>TerminateProcessing\<close> from the
  processor. Nothing reaches an action whose process died.
\<close>

datatype Callback =
    Seek uint64
  | Received Sys blob
  | Complete Sys bool
  | Terminated
  | Stop

definition deliver :: "Callback \<Rightarrow> DownloadAction \<Rightarrow> DownloadAction" where
  "deliver cb s =
     (if aborted s then s
      else
        (case cb of
           Seek offset \<Rightarrow> SeekToOffset offset s
         | Received sys bytes \<Rightarrow> ReceivedBytes sys bytes s
         | Complete sys successful \<Rightarrow> TransferComplete sys successful s
         | Terminated \<Rightarrow> TransferTerminated s
         | Stop \<Rightarrow> DownloadAction_TerminateProcessing s))"

definition callbacks :: "Callback list \<Rightarrow> DownloadAction \<Rightarrow> DownloadAction" where
  "callbacks cbs s = foldl (\<lambda>s cb. deliver cb s) s cbs"

definition run_download ::
  "Sys \<Rightarrow> DownloadAction \<Rightarrow> Callback list \<Rightarrow> DownloadAction" where
  "run_download sys s cbs = callbacks cbs (DownloadAction_PerformAction sys s)"

subsection \<open>A concrete download\<close>

text \<open>
  A world in which every call succeeds, the payload is shared, and the manifest is not
  valid yet; an action as the constructor leaves it, with an input plan, an output pipe
  and an empty P2P directory.
\<close>

definition test_sys :: Sys where
  "test_sys =
     \<lparr>FileShare_ok = True, open_fd = 3, fchmod_ok = True, FileSize_ok = True,
      lseek_ok = True, write_ok = True, Write_result = (True, kSuccess),
      IsManifestValid = False, VerifyPayload_result = kSuccess,
      GetUsingP2PForSharing = True, GetUsingP2PForDownloading = False, GetP2PUrl = [],
      CalculateP2PFileId = (\<lambda>h n. ''cros_update_'' @ h)\<rparr>"

definition test_download :: "FileWriter option \<Rightarrow> DownloadAction" where
  "test_download test_writer =
     DownloadAction_new True test_writer False (Some (test_plan [])) True Map.empty"

subsection \<open>Predicates on the states of the download\<close>

text \<open>
  \<open>sharing_only s s'\<close>: \<open>s'\<close> differs from \<open>s\<close> at most in the share file and the
  members of sharing (the descriptor, its position, the file id, the visibility flag,
  the directory and the record of writes to the file).
\<close>

definition sharing_only :: "DownloadAction \<Rightarrow> DownloadAction \<Rightarrow> bool" where
  "sharing_only s s' =
     (input_object s' = input_object s \<and> has_output_pipe s' = has_output_pipe s \<and>
      output_object s' = output_object s \<and> completions s' = completions s \<and>
      aborted s' = aborted s \<and> system_state s' = system_state s \<and>
      da_install_plan s' = da_install_plan s \<and> writer s' = writer s \<and>
      delta_performer s' = delta_performer s \<and> code s' = code s \<and>
      delegate s' = delegate s \<and> bytes_received s' = bytes_received s \<and>
      written s' = written s \<and> writer_closed s' = writer_closed s \<and>
      terminate_requests s' = terminate_requests s \<and> transfers s' = transfers s \<and>
      verify_calls s' = verify_calls s \<and> make_visible_calls s' = make_visible_calls s \<and>
      download_status s' = download_status s \<and> progress s' = progress s \<and>
      unbootable s' = unbootable s \<and> fetcher_tuned s' = fetcher_tuned s)"

text \<open>
  A file of the directory is visible, or hidden, when it exists and is so.
  \<open>stays_visible f\<close>: the file \<open>f\<close> is visible, or it does not exist and the action
  will not create it (it creates the file of a file id that is not empty only).
  \<open>sharing_inv\<close>: while a file id waits for its first write the flag \<open>p2p_visible_\<close>
  has its initial value and nothing was made visible; once something was made visible
  the flag is set, and that happened at most once; while the descriptor is open the file
  exists and the flag is its visibility.
\<close>

definition visible_in :: "P2PDir \<Rightarrow> string \<Rightarrow> bool" where
  "visible_in dir f = (dir f \<noteq> None \<and> file_visible (the (dir f)))"

definition hidden_in :: "P2PDir \<Rightarrow> string \<Rightarrow> bool" where
  "hidden_in dir f = (dir f \<noteq> None \<and> \<not> file_visible (the (dir f)))"

definition stays_visible :: "string \<Rightarrow> DownloadAction \<Rightarrow> bool" where
  "stays_visible f s =
     ((p2p_dir s f = None \<longrightarrow> p2p_file_id s \<noteq> f \<or> f = []) \<and>
      (p2p_dir s f \<noteq> None \<longrightarrow> file_visible (the (p2p_dir s f))))"

definition sharing_inv :: "DownloadAction \<Rightarrow> bool" where
  "sharing_inv s =
     ((p2p_file_id s \<noteq> [] \<and> p2p_sharing_fd s = - 1 \<longrightarrow>
         p2p_visible s \<and> make_visible_calls s = []) \<and>
      (make_visible_calls s \<noteq> [] \<longrightarrow> p2p_visible s) \<and>
      length (make_visible_calls s) \<le> 1 \<and>
      (p2p_file_id s \<noteq> [] \<and> p2p_sharing_fd s \<noteq> - 1 \<longrightarrow>
         p2p_dir s (p2p_file_id s) \<noteq> None \<and>
         file_visible (the (p2p_dir s (p2p_file_id s))) = p2p_visible s))"

section \<open>Properties of install\_plan.cc\<close>

lemma vector_eq_refl: "vector_eq xs xs"
  by (induction xs) (simp_all add: Partition_eq_def)

text \<open>
  Claim C10. \<open>InstallPlan::operator==\<close> (and so \<open>operator!=\<close>) does not look at
  \<open>hash_checks_mandatory\<close>, \<open>powerwash_required\<close> or \<open>public_key_rsa\<close>: changing any of
  the three in one operand never changes the result of a comparison, and a plan that
  differs from \<open>p\<close> in those three fields only compares equal to \<open>p\<close>.
\<close>

theorem InstallPlan_eq_ignores_three_fields:
  "InstallPlan_eq
      (p\<lparr>hash_checks_mandatory := h, powerwash_required := w, public_key_rsa := k\<rparr>) q
     = InstallPlan_eq p q
   \<and> InstallPlan_ne
      (p\<lparr>hash_checks_mandatory := h, powerwash_required := w, public_key_rsa := k\<rparr>) q
     = InstallPlan_ne p q
   \<and> InstallPlan_eq
      (p\<lparr>hash_checks_mandatory := h, powerwash_required := w, public_key_rsa := k\<rparr>) p
   \<and> \<not> InstallPlan_ne
      (p\<lparr>hash_checks_mandatory := h, powerwash_required := w, public_key_rsa := k\<rparr>) p"
  by (simp add: InstallPlan_eq_def InstallPlan_ne_def vector_eq_refl)

section \<open>Properties of filesystem\_verifier\_action.cc\<close>

lemma length_resize [simp]: "length (resize n xs) = n"
  by (simp add: resize_def)

lemma settled_Cleanup:
  "ready env s \<Longrightarrow> settled env (Cleanup c s)"
  by (auto simp: ready_def settled_def Cleanup_def ActionComplete_def SetOutputObject_def verified_prefix_def Let_def)

lemma unat_sub_of_nat_le:
  fixes w :: "'a::len word"
  assumes "n \<le> unat w"
  shows "unat (w - of_nat n) = unat w - n"
  using assms by (simp add: unat_sub_if' le_unat_uoi)

lemma sint_nonneg_uint:
  fixes w :: "'a::len word"
  assumes "0 \<le> sint w"
  shows "uint w = sint w"
proof -
  have "sint w < 2 ^ (LENGTH('a) - 1)" by (rule sint_lt)
  also have "(2::int) ^ (LENGTH('a) - 1) \<le> 2 ^ LENGTH('a)"
    by (rule power_increasing) simp_all
  finally have "sint w < 2 ^ LENGTH('a)" .
  with assms have "take_bit LENGTH('a) (sint w) = sint w"
    by (simp add: take_bit_int_eq_self)
  then show ?thesis by (simp add: uint_sint)
qed

lemma bytes_to_read_le:
  assumes "length (buffer s) = kReadFileBufferSize"
  shows "bytes_to_read s \<le> unat (remaining_size s)"
proof (cases "sint (remaining_size s) < sint (of_nat (length (buffer s)) :: int64)")
  case True
  then show ?thesis by (simp add: bytes_to_read_def std_min_def)
next
  case False
  with assms have le: "131072 \<le> sint (remaining_size s)"
    by (simp add: kReadFileBufferSize_def)
  then have "0 \<le> sint (remaining_size s)" by simp
  then have "uint (remaining_size s) = sint (remaining_size s)" by (rule sint_nonneg_uint)
  with le have "131072 \<le> unat (remaining_size s)"
    by (simp add: unat_eq_nat_uint)
  then show ?thesis
    using False assms by (simp add: bytes_to_read_def std_min_def kReadFileBufferSize_def)
qed


lemma ready_remaining [simp]: "ready env (s\<lparr>remaining_size := v\<rparr>) = ready env s"
  by (simp add: ready_def verified_prefix_def)

lemma StartPartitionHashing_unfold:
  assumes "partition_index s < length (partitions (install_plan s))"
  shows "StartPartitionHashing env s =
    (let p = partitions (install_plan s) ! partition_index s;
         path = device_of env (verifier_mode s) (install_plan s) p;
         s1 = s\<lparr>remaining_size := size_of (verifier_mode s) p\<rparr>
     in if path = [] then Cleanup kFilesystemVerifierError s1
        else
          (case FileStream_Open env path of
             None \<Rightarrow>
               Cleanup kFilesystemVerifierError
                 (s1\<lparr>src_stream := None, opened := opened s1 @ [path]\<rparr>)
           | Some data \<Rightarrow>
               ScheduleRead env
                 (s1\<lparr>src_stream := Some \<lparr>stream_path = path, unread = data, is_open = True\<rparr>,
                     opened := opened s1 @ [path],
                     buffer := resize kReadFileBufferSize (buffer s1),
                     read_done := False,
                     hasher := Some []\<rparr>)))"
  using assms
  by (subst StartPartitionHashing.simps)
     (simp add: Let_def device_of_def size_of_def split: VerifierMode.splits)

lemma step_inv:
  "ready env s \<Longrightarrow> settled env (StartPartitionHashing env s)"
  "ready env s \<Longrightarrow> \<not> read_done s \<Longrightarrow> hashing env 0 s \<Longrightarrow> settled env (ScheduleRead env s)"
  "ready env s \<Longrightarrow> \<not> read_done s \<Longrightarrow> hashing env n s \<Longrightarrow> settled env (OnReadDoneCallback env n s)"
  "ready env s \<Longrightarrow> hashing env 0 s \<Longrightarrow> remaining_size s = 0 \<Longrightarrow> settled env (FinishPartitionHashing env s)"
proof (induction env s and env s and env n s and env s
    rule: StartPartitionHashing_ScheduleRead_OnReadDoneCallback_FinishPartitionHashing.induct)
  case (1 env s)
  show ?case
  proof (cases "partition_index s = length (partitions (install_plan s))")
    case True
    then show ?thesis
      using "1.prems" by (subst StartPartitionHashing.simps) (simp add: settled_Cleanup)
  next
    case ne: False
    with "1.prems" have lt: "partition_index s < length (partitions (install_plan s))"
      by (simp add: ready_def)
    define p where "p = partitions (install_plan s) ! partition_index s"
    define path where "path = device_of env (verifier_mode s) (install_plan s) p"
    define s1 where "s1 = s\<lparr>remaining_size := size_of (verifier_mode s) p\<rparr>"
    have r1: "ready env s1" using "1.prems" by (simp add: s1_def)
    show ?thesis
    proof (cases "path = []")
      case True
      then show ?thesis
        using r1 lt
        by (simp add: StartPartitionHashing_unfold Let_def settled_Cleanup
            p_def [symmetric] path_def [symmetric] s1_def [symmetric])
    next
      case nonempty: False
      show ?thesis
      proof (cases "FileStream_Open env path")
        case None
        have "ready env (s1\<lparr>src_stream := None, opened := opened s1 @ [path]\<rparr>)"
          using r1 by (simp add: ready_def verified_prefix_def)
        then show ?thesis
          using None nonempty lt
          by (simp add: StartPartitionHashing_unfold Let_def settled_Cleanup
              p_def [symmetric] path_def [symmetric] s1_def [symmetric])
      next
        case (Some data)
        define s2 where "s2 = s1\<lparr>src_stream := Some \<lparr>stream_path = path, unread = data, is_open = True\<rparr>,
                     opened := opened s1 @ [path],
                     buffer := resize kReadFileBufferSize (buffer s1),
                     read_done := False,
                     hasher := Some []\<rparr>"
        have r2: "ready env s2"
          using r1 by (simp add: s2_def ready_def verified_prefix_def)
        have h2: "hashing env 0 s2"
          using lt Some by (simp add: s2_def s1_def hashing_def path_def p_def)
        have nr: "\<not> read_done s2" by (simp add: s2_def)
        have pe: "(case verifier_mode s of
            kComputeSourceHash \<Rightarrow>
              (case GetPartitionDevice env (name p) (source_slot (install_plan s)) of
                 None \<Rightarrow> [] | Some p \<Rightarrow> p)
          | kVerifyTargetHash \<Rightarrow>
              (case GetPartitionDevice env (name p) (target_slot (install_plan s)) of
                 None \<Rightarrow> [] | Some p \<Rightarrow> p)) = path"
          by (simp add: path_def device_of_def split: VerifierMode.splits)
        have se: "s\<lparr>remaining_size :=
                    (case verifier_mode s of
                       kComputeSourceHash \<Rightarrow> source_size p
                     | kVerifyTargetHash \<Rightarrow> target_size p)\<rparr> = s1"
          by (simp add: s1_def size_of_def)
        have lt': "\<not> length (partitions (install_plan s)) < partition_index s"
          using lt by simp
        have "settled env (ScheduleRead env s2)"
          using "1.IH" [OF ne lt' p_def pe [symmetric] se [symmetric] _ _ _ _ _]
            nonempty Some r2 nr h2
          by (simp add: s2_def)
        then show ?thesis
          using Some nonempty lt
          by (simp add: StartPartitionHashing_unfold Let_def
              p_def [symmetric] path_def [symmetric] s1_def [symmetric] s2_def)
      qed
    qed
  qed
next
  case (2 env s)
  from "2.prems"(3) obtain st where st: "src_stream s = Some st"
    by (auto simp: hashing_def split: option.splits)
  show ?case
  proof (cases "bytes_to_read s = 0")
    case True
    then show ?thesis
      using "2.IH" [OF True "2.prems"] by (subst ScheduleRead.simps) simp
  next
    case False
    show ?thesis
    proof (cases "ReadAsync_ok env st")
      case ok: True
      have "settled env (s\<lparr>pending_read := Some (bytes_to_read s)\<rparr>)"
        using "2.prems" False
        by (simp add: settled_def ready_def verified_prefix_def hashing_def bytes_to_read_def
            split: option.splits)
      then show ?thesis
        using False st ok by (subst ScheduleRead.simps) simp
    next
      case bad: False
      then show ?thesis
        using False st "2.prems"(1) by (subst ScheduleRead.simps) (simp add: settled_Cleanup)
    qed
  qed
next
  case (3 env bytes_read s)
  from "3.prems"(3) obtain st d where st: "src_stream s = Some st" and d: "hasher s = Some d"
    by (auto simp: hashing_def split: option.splits)
  from "3.prems"(1) have nc: "\<not> cancelled s" by (simp add: ready_def)
  show ?case
  proof (cases "bytes_read = 0")
    case True
    define s1 where "s1 = s\<lparr>read_done := True\<rparr>"
    have acc: "OnReadDoneCallback_account env bytes_read s = Inr s1"
      using True by (simp add: OnReadDoneCallback_account_def s1_def)
    have r1: "ready env s1"
      using "3.prems"(1) by (simp add: s1_def ready_def verified_prefix_def)
    have h1: "hashing env 0 s1"
      using "3.prems"(3) True by (simp add: s1_def hashing_def split: option.splits)
    have nc1: "\<not> cancelled s1" using nc by (simp add: s1_def)
    have rd1: "read_done s1 \<or> remaining_size s1 = 0" by (simp add: s1_def)
    show ?thesis
    proof (cases "remaining_size s1 = 0")
      case z: True
      have "settled env (FinishPartitionHashing env s1)"
        using "3.IH"(1) [OF acc nc1 rd1 _ r1 h1 z] z by simp
      then show ?thesis
        using acc nc1 rd1 z by (subst OnReadDoneCallback.simps) simp
    next
      case nz: False
      then show ?thesis
        using acc nc1 rd1 r1 by (subst OnReadDoneCallback.simps) (simp add: settled_Cleanup)
    qed
  next
    case pos: False
    define s0 where "s0 = s\<lparr>remaining_size := remaining_size s - of_nat bytes_read\<rparr>"
    have r0: "ready env s0" using "3.prems"(1) by (simp add: s0_def)
    show ?thesis
    proof (cases "Hash_Update_ok env d (take bytes_read (buffer s))")
      case False
      have acc: "OnReadDoneCallback_account env bytes_read s = Inl (Cleanup kError s0)"
        using pos "3.prems"(2) d False
        by (simp add: OnReadDoneCallback_account_def Let_def s0_def)
      show ?thesis
        using acc r0 by (subst OnReadDoneCallback.simps) (simp add: settled_Cleanup)
    next
      case True
      define s1 where "s1 = s0\<lparr>hasher := Some (d @ take bytes_read (buffer s))\<rparr>"
      have acc: "OnReadDoneCallback_account env bytes_read s = Inr s1"
        using pos "3.prems"(2) d True
        by (simp add: OnReadDoneCallback_account_def Let_def s0_def s1_def)
      have r1: "ready env s1"
        using r0 by (simp add: s1_def ready_def verified_prefix_def)
      have nc1: "\<not> cancelled s1" using nc by (simp add: s1_def s0_def)
      have nrd1: "\<not> read_done s1" using "3.prems"(2) by (simp add: s1_def s0_def)
      have le: "bytes_read \<le> unat (remaining_size s)"
        using "3.prems"(3) st d by (simp add: hashing_def Let_def)
      have sub: "unat (remaining_size s - of_nat bytes_read) = unat (remaining_size s) - bytes_read"
        using le by (simp add: unat_sub_of_nat_le)
      have h1: "hashing env 0 s1"
        using "3.prems"(3) st d le sub by (auto simp: hashing_def Let_def s1_def s0_def)
      show ?thesis
      proof (cases "remaining_size s1 = 0")
        case z: True
        have "settled env (FinishPartitionHashing env s1)"
          using "3.IH"(1) [OF acc nc1 _ _ r1 h1 z] z by simp
        then show ?thesis
          using acc nc1 z by (subst OnReadDoneCallback.simps) simp
      next
        case nz: False
        have "settled env (ScheduleRead env s1)"
          using "3.IH"(2) [OF acc nc1 _ r1 nrd1 h1] nz nrd1 by simp
        then show ?thesis
          using acc nc1 nz nrd1 by (subst OnReadDoneCallback.simps) simp
      qed
    qed
  qed
next
  case (4 env s)
  from "4.prems"(2) obtain st d where st: "src_stream s = Some st" and d: "hasher s = Some d"
    by (auto simp: hashing_def split: option.splits)
  from "4.prems"(2) st d have lt: "partition_index s < length (partitions (install_plan s))"
    by (simp add: hashing_def)
  define p where "p = partitions (install_plan s) ! partition_index s"
  show ?case
  proof (cases "Hash_Finalize_ok env d")
    case False
    then show ?thesis
      using d "4.prems"(1) by (subst FinishPartitionHashing.simps) (simp add: settled_Cleanup)
  next
    case fin: True
    show ?thesis
    proof (cases "FinishPartitionHashing_switch env d s")
      case None
      then show ?thesis
        using d fin lt "4.prems"(1)
        by (subst FinishPartitionHashing.simps) (simp add: settled_Cleanup)
    next
      case (Some s1)
      have st1: "src_stream s1 = Some st"
        using Some st
        by (auto simp: FinishPartitionHashing_switch_def Let_def
            split: VerifierMode.splits if_splits)
      define s2 where "s2 = s1\<lparr>partition_index := partition_index s1 + 1,
                            hasher := None,
                            buffer := [],
                            src_stream := Some (st\<lparr>is_open := False\<rparr>)\<rparr>"
      have dev: "FileStream_Open env (device_of env (verifier_mode s) (install_plan s) p)
           = Some (d @ unread st)"
        and len: "length d = unat (size_of (verifier_mode s) p)"
        using "4.prems"(2,3) st d by (auto simp: hashing_def Let_def p_def)
      have r2: "ready env s2"
      proof (cases "verifier_mode s")
        case kComputeSourceHash
        then show ?thesis
          using Some "4.prems"(1) lt
          by (auto simp: FinishPartitionHashing_switch_def Let_def s2_def ready_def
              verified_prefix_def)
      next
        case kVerifyTargetHash
        with Some have s1: "s1 = s" and eq: "target_hash p = raw_hash env d"
          by (auto simp: FinishPartitionHashing_switch_def Let_def p_def split: if_splits)
        have m: "target_hash_matches env (install_plan s) p"
          using dev len eq kVerifyTargetHash
          by (simp add: target_hash_matches_def size_of_def)
        show ?thesis
          using "4.prems"(1) lt m kVerifyTargetHash
          by (simp add: s2_def s1 ready_def verified_prefix_def take_Suc_conv_app_nth p_def)
      qed
      have "settled env (StartPartitionHashing env s2)"
        using "4.IH" [OF d _ _ Some st1] fin lt r2 by (simp add: s2_def)
      then show ?thesis
        using d fin lt Some st1
        by (subst FinishPartitionHashing.simps) (simp add: s2_def)
    qed
  qed
qed

lemma partition_index_Cleanup [simp]: "partition_index (Cleanup c s) = partition_index s"
  by (simp add: Cleanup_def ActionComplete_def SetOutputObject_def Let_def)

lemma account_index:
  "OnReadDoneCallback_account env n s = Inl s' \<Longrightarrow> partition_index s' = partition_index s"
  "OnReadDoneCallback_account env n s = Inr s' \<Longrightarrow> partition_index s' = partition_index s"
  by (auto simp: OnReadDoneCallback_account_def Let_def split: if_splits option.splits)

lemma switch_index:
  "FinishPartitionHashing_switch env d s = Some s' \<Longrightarrow> partition_index s' = partition_index s"
  by (auto simp: FinishPartitionHashing_switch_def Let_def split: if_splits VerifierMode.splits)

lemma partition_index_mono:
  "partition_index s \<le> partition_index (StartPartitionHashing env s)"
  "partition_index s \<le> partition_index (ScheduleRead env s)"
  "partition_index s \<le> partition_index (OnReadDoneCallback env n s)"
  "partition_index s \<le> partition_index (FinishPartitionHashing env s)"
proof (induction env s and env s and env n s and env s
    rule: StartPartitionHashing_ScheduleRead_OnReadDoneCallback_FinishPartitionHashing.induct)
  case (1 env s)
  show ?case
  proof (cases "partition_index s < length (partitions (install_plan s))")
    case False
    then show ?thesis by (subst StartPartitionHashing.simps) simp
  next
    case lt: True
    define p where "p = partitions (install_plan s) ! partition_index s"
    define path where "path = device_of env (verifier_mode s) (install_plan s) p"
    define s1 where "s1 = s\<lparr>remaining_size := size_of (verifier_mode s) p\<rparr>"
    show ?thesis
    proof (cases "path \<noteq> [] \<and> FileStream_Open env path \<noteq> None")
      case False
      then show ?thesis
        using lt
        by (auto simp: StartPartitionHashing_unfold Let_def
            p_def [symmetric] path_def [symmetric])
    next
      case True
      then obtain data where nonempty: "path \<noteq> []" and op: "FileStream_Open env path = Some data"
        by auto
      have ne: "partition_index s \<noteq> length (partitions (install_plan s))"
        and lt': "\<not> length (partitions (install_plan s)) < partition_index s"
        using lt by simp_all
      have pe: "path = (case verifier_mode s of
            kComputeSourceHash \<Rightarrow>
              (case GetPartitionDevice env (name p) (source_slot (install_plan s)) of
                 None \<Rightarrow> [] | Some p \<Rightarrow> p)
          | kVerifyTargetHash \<Rightarrow>
              (case GetPartitionDevice env (name p) (target_slot (install_plan s)) of
                 None \<Rightarrow> [] | Some p \<Rightarrow> p))"
        by (simp add: path_def device_of_def split: VerifierMode.splits)
      have se: "s1 = s\<lparr>remaining_size :=
                    (case verifier_mode s of
                       kComputeSourceHash \<Rightarrow> source_size p
                     | kVerifyTargetHash \<Rightarrow> target_size p)\<rparr>"
        by (simp add: s1_def size_of_def)
      show ?thesis
        using "1.IH" [OF ne lt' p_def pe se nonempty op] lt nonempty op
        by (simp add: StartPartitionHashing_unfold Let_def
            p_def [symmetric] path_def [symmetric] s1_def)
    qed
  qed
next
  case (2 env s)
  show ?case
    using "2.IH"
    by (subst ScheduleRead.simps) (auto simp: Let_def split: option.splits)
next
  case (3 env n s)
  show ?case
    using "3.IH"
    by (subst OnReadDoneCallback.simps)
       (auto simp: Let_def account_index split: option.splits sum.splits)
next
  case (4 env s)
  show ?case
  proof (cases "\<exists>d s1 st. hasher s = Some d \<and> Hash_Finalize_ok env d \<and>
      partition_index s < length (partitions (install_plan s)) \<and>
      FinishPartitionHashing_switch env d s = Some s1 \<and> src_stream s1 = Some st")
    case False
    then show ?thesis
      by (subst FinishPartitionHashing.simps)
         (auto simp: switch_index split: option.splits)
  next
    case True
    then obtain d s1 st where d: "hasher s = Some d" and fin: "Hash_Finalize_ok env d"
      and lt: "partition_index s < length (partitions (install_plan s))"
      and sw: "FinishPartitionHashing_switch env d s = Some s1"
      and st: "src_stream s1 = Some st"
      by blast
    have "partition_index s1 + 1 \<le> partition_index (StartPartitionHashing env
        (s1\<lparr>partition_index := partition_index s1 + 1, hasher := None, buffer := [],
            src_stream := Some (st\<lparr>is_open := False\<rparr>)\<rparr>))"
      using "4.IH" [OF d _ _ sw st] fin lt by simp
    then show ?thesis
      using d fin lt sw st switch_index [OF sw]
      by (subst FinishPartitionHashing.simps) simp
  qed
qed

lemma delivered_le_unread: "delivered k r st \<le> length (unread st)"
  by (cases "unread st") (simp_all add: delivered_def)

lemma delivered_le_request: "r \<noteq> 0 \<Longrightarrow> delivered k r st \<le> r"
  by (auto simp: delivered_def)

lemma delivered_0_iff: "r \<noteq> 0 \<Longrightarrow> delivered k r st = 0 \<longleftrightarrow> unread st = []"
  by (simp add: delivered_def)

lemma hashing_fill_buffer:
  assumes h: "hashing env 0 s" and st: "src_stream s = Some st"
    and r: "r \<noteq> 0" "r = bytes_to_read s"
    and fit: "\<not> length (buffer s) < delivered k r st"
  shows "hashing env (delivered k r st) (fill_buffer (delivered k r st) st s)"
proof -
  define n where "n = delivered k r st"
  from h st obtain d where d: "hasher s = Some d"
    by (auto simp: hashing_def split: option.splits)
  have len: "length (buffer s) = kReadFileBufferSize"
    using h st d by (simp add: hashing_def Let_def)
  have n1: "n \<le> length (unread st)" unfolding n_def by (rule delivered_le_unread)
  have n2: "n \<le> unat (remaining_size s)"
    using delivered_le_request [OF r(1), of k st] bytes_to_read_le [OF len] r(2)
    by (simp add: n_def)
  have n3: "n \<le> length (buffer s)" using fit by (simp add: n_def)
  have tk: "take n (take n (unread st) @ drop n (buffer s)) = take n (unread st)"
    using n1 by simp
  show ?thesis
    using h st d n1 n2 n3 tk
    unfolding n_def [symmetric]
    by (auto simp: hashing_def fill_buffer_def Let_def)
qed

lemma settled_dispatch:
  assumes "settled env s"
  shows "aborted (dispatch env ev s) \<or> settled env (dispatch env ev s)"
proof (cases "aborted s")
  case True
  then show ?thesis by (simp add: dispatch_def)
next
  case na: False
  show ?thesis
  proof (cases ev)
    case (ReadDone k)
    show ?thesis
    proof (cases "pending_read s")
      case None
      then show ?thesis using assms na ReadDone by (simp add: dispatch_def)
    next
      case (Some r)
      with assms have nc: "\<not> cancelled s" and c: "completions s = []" and nrd: "\<not> read_done s"
        and r: "r = bytes_to_read s" "r \<noteq> 0" and h: "hashing env 0 s"
        and vp: "verified_prefix env s"
        and le: "partition_index s \<le> length (partitions (install_plan s))"
        by (simp_all add: settled_def)
      from h obtain st where st: "src_stream s = Some st"
        by (auto simp: hashing_def split: option.splits)
      show ?thesis
      proof (cases "length (buffer s) < delivered k r st")
        case True
        then show ?thesis using na ReadDone Some st by (simp add: dispatch_def)
      next
        case fit: False
        define s1 where "s1 = fill_buffer (delivered k r st) st s"
        have h1: "hashing env (delivered k r st) s1"
          unfolding s1_def using h st r(2) r(1) fit by (rule hashing_fill_buffer)
        have r1: "ready env s1"
          using na nc c vp le by (simp add: s1_def fill_buffer_def ready_def verified_prefix_def)
        have nrd1: "\<not> read_done s1" using nrd by (simp add: s1_def fill_buffer_def)
        have "settled env (OnReadDoneCallback env (delivered k r st) s1)"
          using r1 nrd1 h1 by (rule step_inv(3))
        then show ?thesis
          using na ReadDone Some st fit by (simp add: dispatch_def s1_def)
      qed
    qed
  next
    case ReadError
    show ?thesis
    proof (cases "pending_read s")
      case None
      then show ?thesis using assms na ReadError by (simp add: dispatch_def)
    next
      case (Some r)
      with assms na have "ready env (s\<lparr>pending_read := None\<rparr>)"
        by (simp add: settled_def ready_def verified_prefix_def)
      then have "settled env (Cleanup kError (s\<lparr>pending_read := None\<rparr>))"
        by (rule settled_Cleanup)
      then show ?thesis
        using na ReadError Some by (simp add: dispatch_def OnReadErrorCallback_def)
    qed
  next
    case Terminate
    show ?thesis
    proof (cases "completions s = []")
      case False
      then show ?thesis using assms na Terminate by (simp add: dispatch_def)
    next
      case True
      have "settled env (TerminateProcessing s)"
        using assms True
        by (simp add: settled_def TerminateProcessing_def Cleanup_def verified_prefix_def)
      then show ?thesis using na Terminate True by (simp add: dispatch_def)
    qed
  qed
qed

lemma ready_new_plan:
  "ready env (FilesystemVerifierAction_new mode inp pipe\<lparr>install_plan := plan\<rparr>)"
  by (simp add: ready_def FilesystemVerifierAction_new_def verified_prefix_def)

lemma legacy_preserves:
  assumes "PerformAction_legacy env s = Inl s' \<or> PerformAction_legacy env s = Inr s'"
  shows "aborted s' = aborted s \<and> cancelled s' = cancelled s \<and> completions s' = completions s
     \<and> pending_read s' = pending_read s \<and> partition_index s' = partition_index s
     \<and> src_stream s' = src_stream s \<and> verifier_mode s' = verifier_mode s"
  using assms
  by (auto simp: PerformAction_legacy_def Let_def push_back_def
      split: if_splits option.splits prod.splits)

lemma settled_PerformAction:
  "settled env (PerformAction env (FilesystemVerifierAction_new mode inp pipe))"
proof (cases inp)
  case None
  then show ?thesis
    by (simp add: PerformAction_def FilesystemVerifierAction_new_def ActionComplete_def
        settled_def verified_prefix_def)
next
  case (Some plan)
  define s0 where "s0 = FilesystemVerifierAction_new mode inp pipe\<lparr>install_plan := plan\<rparr>"
  have r0: "ready env s0" unfolding s0_def by (rule ready_new_plan)
  have inp: "input_object (FilesystemVerifierAction_new mode inp pipe) = Some plan"
    using Some by (simp add: FilesystemVerifierAction_new_def)
  show ?thesis
  proof (cases "PerformAction_legacy env s0")
    case (Inl s')
    from legacy_preserves [of env s0 s'] Inl r0
    have "settled env (ActionComplete kError s')"
      by (simp add: ready_def settled_def ActionComplete_def verified_prefix_def s0_def
          FilesystemVerifierAction_new_def)
    then show ?thesis using inp Inl by (simp add: PerformAction_def s0_def [symmetric])
  next
    case (Inr s1)
    from legacy_preserves [of env s0 s1] Inr r0
    have p: "\<not> aborted s1" "\<not> cancelled s1" "completions s1 = []" "pending_read s1 = None"
      "partition_index s1 = 0" "src_stream s1 = None"
      by (simp_all add: ready_def s0_def FilesystemVerifierAction_new_def)
    show ?thesis
    proof (cases "partitions (install_plan s1) = []")
      case True
      have "settled env (ActionComplete kSuccess
                   (if has_output_pipe s1 then SetOutputObject (install_plan s1) s1 else s1))"
        using p by (simp add: settled_def ActionComplete_def SetOutputObject_def verified_prefix_def)
      then show ?thesis using inp Inr True by (simp add: PerformAction_def s0_def [symmetric])
    next
      case False
      have "ready env s1" using p by (simp add: ready_def verified_prefix_def)
      then have "settled env (StartPartitionHashing env s1)" by (rule step_inv(1))
      then show ?thesis using inp Inr False by (simp add: PerformAction_def s0_def [symmetric])
    qed
  qed
qed

lemma aborted_dispatch: "aborted s \<Longrightarrow> dispatch env ev s = s"
  by (simp add: dispatch_def)

lemma run_verifier_snoc:
  "run_verifier env mode inp pipe (evs @ [ev]) =
     dispatch env ev (run_verifier env mode inp pipe evs)"
  by (simp add: run_verifier_def)

lemma run_verifier_inv:
  "aborted (run_verifier env mode inp pipe evs) \<or> settled env (run_verifier env mode inp pipe evs)"
proof (induction evs rule: rev_induct)
  case Nil
  show ?case by (simp add: run_verifier_def settled_PerformAction)
next
  case (snoc ev evs)
  then show ?case
    using settled_dispatch [of env "run_verifier env mode inp pipe evs" ev]
    by (auto simp: run_verifier_snoc aborted_dispatch)
qed

lemma run_verifier_append:
  "run_verifier env mode inp pipe (evs @ evs') =
     foldl (\<lambda>s ev. dispatch env ev s) (run_verifier env mode inp pipe evs) evs'"
  by (simp add: run_verifier_def)

lemma cancelled_forever:
  assumes "cancelled s" "pending_read s = None" "completions s = []"
  shows "cancelled (foldl (\<lambda>s ev. dispatch env ev s) s evs) \<and>
         pending_read (foldl (\<lambda>s ev. dispatch env ev s) s evs) = None \<and>
         completions (foldl (\<lambda>s ev. dispatch env ev s) s evs) = []"
  using assms
proof (induction evs arbitrary: s)
  case Nil
  then show ?case by simp
next
  case (Cons ev evs)
  have "cancelled (dispatch env ev s) \<and> pending_read (dispatch env ev s) = None \<and>
        completions (dispatch env ev s) = []"
    using Cons.prems
    by (cases ev) (simp_all add: dispatch_def TerminateProcessing_def Cleanup_def)
  then show ?case using Cons.IH by simp
qed

lemma aborted_forever:
  "aborted s \<Longrightarrow> foldl (\<lambda>s ev. dispatch env ev s) s evs = s"
  by (induction evs) (simp_all add: aborted_dispatch)

text \<open>
  Claim C3, as amended. At every point of every run of the action (after
  \<open>PerformAction\<close> and any sequence of read completions, read errors and
  \<open>TerminateProcessing\<close> calls), unless the process died: an action that was not
  cancelled has delivered no completion while a read is in flight and exactly one
  completion once no read is in flight (every exit path: success and every failure);
  a cancelled action has delivered none and waits for no read. And once
  \<open>TerminateProcessing\<close> is called on an action that has not completed, no completion
  is delivered by that call nor by anything that follows it.
\<close>

theorem one_completion_unless_terminated:
  "(let s = run_verifier env mode inp pipe evs in
      aborted s \<or>
      (if cancelled s then completions s = [] \<and> pending_read s = None
       else (case pending_read s of
               Some r \<Rightarrow> completions s = []
             | None \<Rightarrow> length (completions s) = 1)))
   \<and> (completions (run_verifier env mode inp pipe evs) = [] \<longrightarrow>
        completions (run_verifier env mode inp pipe (evs @ Terminate # evs')) = [])"
proof
  show "let s = run_verifier env mode inp pipe evs in
      aborted s \<or>
      (if cancelled s then completions s = [] \<and> pending_read s = None
       else (case pending_read s of
               Some r \<Rightarrow> completions s = []
             | None \<Rightarrow> length (completions s) = 1))"
    using run_verifier_inv [of env mode inp pipe evs]
    by (auto simp: Let_def settled_def split: option.splits if_splits)
next
  show "completions (run_verifier env mode inp pipe evs) = [] \<longrightarrow>
        completions (run_verifier env mode inp pipe (evs @ Terminate # evs')) = []"
  proof
    define s where "s = run_verifier env mode inp pipe evs"
    assume "completions (run_verifier env mode inp pipe evs) = []"
    then have c: "completions s = []" by (simp add: s_def)
    show "completions (run_verifier env mode inp pipe (evs @ Terminate # evs')) = []"
    proof (cases "aborted s")
      case True
      then show ?thesis
        using c by (simp add: run_verifier_append s_def [symmetric] aborted_dispatch aborted_forever)
    next
      case False
      have t: "dispatch env Terminate s = TerminateProcessing s"
        using False c by (simp add: dispatch_def)
      have "cancelled (TerminateProcessing s)" "pending_read (TerminateProcessing s) = None"
        "completions (TerminateProcessing s) = []"
        using c by (simp_all add: TerminateProcessing_def Cleanup_def)
      then show ?thesis
        using cancelled_forever [of "TerminateProcessing s" env evs']
        by (simp add: run_verifier_append s_def [symmetric] t)
    qed
  qed
qed

lemmas verifier_run_simps =
  run_verifier_def PerformAction_def FilesystemVerifierAction_new_def test_plan_def
  test_partition_def Partition_default_def PerformAction_legacy_def push_back_def
  StartPartitionHashing.simps ScheduleRead.simps OnReadDoneCallback.simps
  FinishPartitionHashing.simps Let_def test_env_def bytes_to_read_def std_min_def
  kReadFileBufferSize_def dispatch_def delivered_def fill_buffer_def
  OnReadDoneCallback_account_def FinishPartitionHashing_switch_def Cleanup_def
  ActionComplete_def SetOutputObject_def TerminateProcessing_def OnReadErrorCallback_def
  kLegacyPartitionNameRoot_def kLegacyPartitionNameKernel_def

text \<open>
  The claim as it was written asks for one completion after \<open>TerminateProcessing\<close> too.
  On a plan of one partition of three bytes, a read of two bytes and then
  \<open>TerminateProcessing\<close> leave the action with no completion and no read in flight; a
  late \<open>OnReadDoneCallback\<close> and any further event deliver none either.
\<close>

theorem terminated_run_counterexample:
  "pending_read (run_verifier test_env kVerifyTargetHash
        (Some (test_plan [test_partition ''root'' 3 [6]])) True [ReadDone 2]) = Some 1
   \<and> completions (run_verifier test_env kVerifyTargetHash
        (Some (test_plan [test_partition ''root'' 3 [6]])) True [ReadDone 2, Terminate]) = []
   \<and> pending_read (run_verifier test_env kVerifyTargetHash
        (Some (test_plan [test_partition ''root'' 3 [6]])) True [ReadDone 2, Terminate]) = None
   \<and> completions (OnReadDoneCallback test_env 1 (run_verifier test_env kVerifyTargetHash
        (Some (test_plan [test_partition ''root'' 3 [6]])) True [ReadDone 2, Terminate])) = []
   \<and> completions (run_verifier test_env kVerifyTargetHash
        (Some (test_plan [test_partition ''root'' 3 [6]])) True
        [ReadDone 2, Terminate, ReadDone 1, ReadError, Terminate]) = []"
  by (simp add: verifier_run_simps)

theorem one_completion_unless_terminated_witness:
  "completions (run_verifier test_env kVerifyTargetHash
        (Some (test_plan [test_partition ''root'' 3 [6]])) True [ReadDone 2]) = []
   \<and> completions (run_verifier test_env kVerifyTargetHash
        (Some (test_plan [test_partition ''root'' 3 [6]])) True ([ReadDone 2] @ Terminate # [ReadDone 1])) = []
   \<and> completions (run_verifier test_env kVerifyTargetHash
        (Some (test_plan [test_partition ''root'' 3 [6]])) True [ReadDone 2, ReadDone 1]) = [kSuccess]"
proof -
  have c: "completions (run_verifier test_env kVerifyTargetHash
        (Some (test_plan [test_partition ''root'' 3 [6]])) True [ReadDone 2]) = []"
    by (simp add: verifier_run_simps)
  have d: "completions (run_verifier test_env kVerifyTargetHash
        (Some (test_plan [test_partition ''root'' 3 [6]])) True [ReadDone 2, ReadDone 1]) = [kSuccess]"
    by (simp add: verifier_run_simps)
  from one_completion_unless_terminated [of test_env kVerifyTargetHash
        "Some (test_plan [test_partition ''root'' 3 [6]])" True "[ReadDone 2]" "[ReadDone 1]"] c d
  show ?thesis by blast
qed

lemma OnReadDoneCallback_zero:
  "\<not> cancelled s \<Longrightarrow> OnReadDoneCallback env 0 s =
     (if remaining_size s \<noteq> 0 then Cleanup kFilesystemVerifierError (s\<lparr>read_done := True\<rparr>)
      else FinishPartitionHashing env (s\<lparr>read_done := True\<rparr>))"
  by (subst OnReadDoneCallback.simps) (simp add: OnReadDoneCallback_account_def)

lemma OnReadDoneCallback_pos:
  assumes "n \<noteq> 0" "\<not> read_done s" "hasher s = Some d" "\<not> cancelled s"
  shows "OnReadDoneCallback env n s =
     (if \<not> Hash_Update_ok env d (take n (buffer s))
      then Cleanup kError (s\<lparr>remaining_size := remaining_size s - of_nat n\<rparr>)
      else if remaining_size s = of_nat n
      then FinishPartitionHashing env
             (s\<lparr>remaining_size := 0, hasher := Some (d @ take n (buffer s))\<rparr>)
      else ScheduleRead env
             (s\<lparr>remaining_size := remaining_size s - of_nat n,
                hasher := Some (d @ take n (buffer s))\<rparr>))"
  using assms
  by (subst OnReadDoneCallback.simps) (auto simp: OnReadDoneCallback_account_def Let_def)

lemma ScheduleRead_pos:
  "bytes_to_read s \<noteq> 0 \<Longrightarrow> src_stream s = Some st \<Longrightarrow>
   ScheduleRead env s =
     (if \<not> ReadAsync_ok env st then Cleanup kError s
      else s\<lparr>pending_read := Some (bytes_to_read s)\<rparr>)"
  by (subst ScheduleRead.simps) simp


lemma bytes_to_read_0_iff:
  assumes "length (buffer s) = kReadFileBufferSize"
  shows "bytes_to_read s = 0 \<longleftrightarrow> remaining_size s = 0"
  using assms
  by (auto simp: bytes_to_read_def std_min_def kReadFileBufferSize_def unat_eq_0)

lemma FinishPartitionHashing_unfold:
  assumes "hasher s = Some d" "Hash_Finalize_ok env d"
    "partition_index s < length (partitions (install_plan s))" "src_stream s = Some st"
  shows "FinishPartitionHashing env s =
     (case verifier_mode s of
        kComputeSourceHash \<Rightarrow>
          StartPartitionHashing env
            (s\<lparr>install_plan := (install_plan s)\<lparr>partitions :=
                 (partitions (install_plan s))
                   [partition_index s :=
                      (partitions (install_plan s) ! partition_index s)
                        \<lparr>source_hash := raw_hash env d\<rparr>]\<rparr>,
               partition_index := partition_index s + 1, hasher := None, buffer := [],
               src_stream := Some (st\<lparr>is_open := False\<rparr>)\<rparr>)
      | kVerifyTargetHash \<Rightarrow>
          if target_hash (partitions (install_plan s) ! partition_index s) \<noteq> raw_hash env d
          then Cleanup kNewRootfsVerificationError s
          else StartPartitionHashing env
            (s\<lparr>partition_index := partition_index s + 1, hasher := None, buffer := [],
               src_stream := Some (st\<lparr>is_open := False\<rparr>)\<rparr>))"
  using assms
  by (subst FinishPartitionHashing.simps)
     (simp add: FinishPartitionHashing_switch_def Let_def split: VerifierMode.splits)

lemma FinishPartitionHashing_fail:
  "hasher s = Some d \<Longrightarrow> \<not> Hash_Finalize_ok env d \<Longrightarrow>
   FinishPartitionHashing env s = Cleanup kError s"
  by (subst FinishPartitionHashing.simps) simp

lemma Cleanup_fields [simp]:
  "pending_read (Cleanup c s) = None"
  "src_stream (Cleanup c s) = None"
  "cancelled (Cleanup c s) = cancelled s"
  "aborted (Cleanup c s) = aborted s"
  "completions (Cleanup c s) = (if cancelled s then completions s else completions s @ [c])"
  "install_plan (Cleanup c s) = install_plan s"
  "verifier_mode (Cleanup c s) = verifier_mode s"
  "opened (Cleanup c s) = opened s"
  by (simp_all add: Cleanup_def ActionComplete_def SetOutputObject_def Let_def)

text \<open>What a reachable state with a read in flight looks like.\<close>

lemma reading_state:
  assumes "s = run_verifier env mode inp pipe evs" "\<not> aborted s" "pending_read s = Some r"
  shows "\<not> cancelled s" "completions s = []" "\<not> read_done s" "r = bytes_to_read s" "r \<noteq> 0"
    "hashing env 0 s" "verified_prefix env s"
  using run_verifier_inv [of env mode inp pipe evs] assms
  by (simp_all add: settled_def)

text \<open>
  Claim C4. Take any point of any run at which a read is in flight on a partition
  (the process alive), and let the read complete with \<open>n\<close> bytes. A read is only ever in
  flight while \<open>remaining_size_\<close> is not 0. If the read returns zero bytes, the action
  completes with \<open>kFilesystemVerifierError\<close> and reads no more. If it returns zero bytes
  or brings \<open>remaining_size_\<close> to 0, the read loop of the partition is over: no read is
  in flight afterwards, or the action is at a later partition. Otherwise (the hash update
  and the next \<open>ReadAsync\<close> succeeding) the loop goes on: a read is in flight on the
  same partition and nothing was completed.
\<close>

theorem read_loop_ends:
  assumes s: "s = run_verifier env mode inp pipe evs"
    and alive: "\<not> aborted s"
    and pending: "pending_read s = Some r"
    and st: "src_stream s = Some st"
    and d: "hasher s = Some d"
    and n: "n = delivered k r st"
    and s': "s' = dispatch env (ReadDone k) s"
    and fits: "\<not> aborted s'"
  shows "remaining_size s \<noteq> 0
    \<and> (n = 0 \<longrightarrow> completions s' = [kFilesystemVerifierError] \<and> pending_read s' = None)
    \<and> (n = 0 \<or> remaining_size s = of_nat n \<longrightarrow>
         pending_read s' = None \<or> partition_index s < partition_index s')
    \<and> (n \<noteq> 0 \<and> remaining_size s \<noteq> of_nat n \<and>
         Hash_Update_ok env d (take n (unread st)) \<and>
         ReadAsync_ok env (st\<lparr>unread := drop n (unread st)\<rparr>) \<longrightarrow>
         pending_read s' \<noteq> None \<and> partition_index s' = partition_index s \<and>
         completions s' = [])"
proof -
  note rs = reading_state [OF s alive pending]
  from rs(6) st d have len: "length (buffer s) = kReadFileBufferSize"
    and lt: "partition_index s < length (partitions (install_plan s))"
    by (simp_all add: hashing_def Let_def)
  have rem: "remaining_size s \<noteq> 0"
    using rs(4,5) bytes_to_read_0_iff [OF len] by simp
  have fit: "\<not> length (buffer s) < n"
    using fits alive pending st by (auto simp: s' dispatch_def n)
  define s1 where "s1 = fill_buffer n st s"
  have nle: "n \<le> length (unread st)" unfolding n by (rule delivered_le_unread)
  have s'1: "s' = OnReadDoneCallback env n s1"
    using alive pending st fit by (simp add: s' dispatch_def n s1_def)
  have f1: "\<not> cancelled s1" "\<not> read_done s1" "hasher s1 = Some d" "completions s1 = []"
    "remaining_size s1 = remaining_size s" "partition_index s1 = partition_index s"
    "length (buffer s1) = kReadFileBufferSize"
    "src_stream s1 = Some (st\<lparr>unread := drop n (unread st)\<rparr>)"
    using rs d fit len nle by (simp_all add: s1_def fill_buffer_def)
  from nle have tk: "take n (buffer s1) = take n (unread st)"
    by (simp add: s1_def fill_buffer_def)
  have zero: "n = 0 \<Longrightarrow> s' = Cleanup kFilesystemVerifierError (s1\<lparr>read_done := True\<rparr>)"
    using f1 rem by (simp add: s'1 OnReadDoneCallback_zero)
  have A: "n = 0 \<longrightarrow> completions s' = [kFilesystemVerifierError] \<and> pending_read s' = None"
    using zero f1 by simp
  have B: "n = 0 \<or> remaining_size s = of_nat n \<longrightarrow>
         pending_read s' = None \<or> partition_index s < partition_index s'"
  proof (intro impI)
    assume "n = 0 \<or> remaining_size s = of_nat n"
    then consider (z) "n = 0" | (last) "n \<noteq> 0" "remaining_size s = of_nat n" by blast
    then show "pending_read s' = None \<or> partition_index s < partition_index s'"
    proof cases
      case z
      then show ?thesis using A by simp
    next
      case last
      define s2 where "s2 = s1\<lparr>remaining_size := 0, hasher := Some (d @ take n (buffer s1))\<rparr>"
      show ?thesis
      proof (cases "Hash_Update_ok env d (take n (buffer s1))")
        case False
        then show ?thesis
          using last f1 by (simp add: s'1 OnReadDoneCallback_pos [where d = d])
      next
        case True
        then have e: "s' = FinishPartitionHashing env s2"
          using last f1 by (simp add: s'1 OnReadDoneCallback_pos [where d = d] s2_def)
        show ?thesis
        proof (cases "Hash_Finalize_ok env (d @ take n (buffer s1))")
          case False
          then show ?thesis
            by (simp add: e FinishPartitionHashing_fail [where d = "d @ take n (buffer s1)"] s2_def)
        next
          case fin: True
          have u: "FinishPartitionHashing env s2 =
            (case verifier_mode s2 of
        kComputeSourceHash \<Rightarrow>
          StartPartitionHashing env
            (s2\<lparr>install_plan := (install_plan s2)\<lparr>partitions :=
                 (partitions (install_plan s2))
                   [partition_index s2 :=
                      (partitions (install_plan s2) ! partition_index s2)
                        \<lparr>source_hash := raw_hash env (d @ take n (buffer s1))\<rparr>]\<rparr>,
               partition_index := partition_index s2 + 1, hasher := None, buffer := [],
               src_stream := Some (st\<lparr>unread := drop n (unread st), is_open := False\<rparr>)\<rparr>)
      | kVerifyTargetHash \<Rightarrow>
          if target_hash (partitions (install_plan s2) ! partition_index s2)
               \<noteq> raw_hash env (d @ take n (buffer s1))
          then Cleanup kNewRootfsVerificationError s2
          else StartPartitionHashing env
            (s2\<lparr>partition_index := partition_index s2 + 1, hasher := None, buffer := [],
               src_stream := Some (st\<lparr>unread := drop n (unread st), is_open := False\<rparr>)\<rparr>))"
            using fin f1 lt
            by (subst FinishPartitionHashing_unfold
                [where d = "d @ take n (buffer s1)" and st = "st\<lparr>unread := drop n (unread st)\<rparr>"])
               (simp_all add: s2_def s1_def fill_buffer_def)
          show ?thesis
            unfolding e u
            using partition_index_mono(1) [of "s2\<lparr>install_plan := (install_plan s2)\<lparr>partitions :=
                 (partitions (install_plan s2))
                   [partition_index s2 :=
                      (partitions (install_plan s2) ! partition_index s2)
                        \<lparr>source_hash := raw_hash env (d @ take n (buffer s1))\<rparr>]\<rparr>,
               partition_index := partition_index s2 + 1, hasher := None, buffer := [],
               src_stream := Some (st\<lparr>unread := drop n (unread st), is_open := False\<rparr>)\<rparr>" env]
              partition_index_mono(1) [of "s2\<lparr>partition_index := partition_index s2 + 1, hasher := None, buffer := [],
               src_stream := Some (st\<lparr>unread := drop n (unread st), is_open := False\<rparr>)\<rparr>" env]
              f1
            by (auto simp: s2_def split: VerifierMode.splits)
        qed
      qed
    qed
  qed
  have C: "n \<noteq> 0 \<and> remaining_size s \<noteq> of_nat n \<and>
         Hash_Update_ok env d (take n (unread st)) \<and>
         ReadAsync_ok env (st\<lparr>unread := drop n (unread st)\<rparr>) \<longrightarrow>
         pending_read s' \<noteq> None \<and> partition_index s' = partition_index s \<and>
         completions s' = []"
  proof (intro impI, elim conjE)
    assume h: "n \<noteq> 0" "remaining_size s \<noteq> of_nat n"
      "Hash_Update_ok env d (take n (unread st))"
      "ReadAsync_ok env (st\<lparr>unread := drop n (unread st)\<rparr>)"
    define s2 where "s2 = s1\<lparr>remaining_size := remaining_size s1 - of_nat n,
                hasher := Some (d @ take n (buffer s1))\<rparr>"
    have e: "s' = ScheduleRead env s2"
      using h f1 tk by (simp add: s'1 OnReadDoneCallback_pos [where d = d] s2_def)
    have "remaining_size s2 \<noteq> 0" using h(2) f1 by (simp add: s2_def)
    moreover have "length (buffer s2) = kReadFileBufferSize" using f1 by (simp add: s2_def)
    ultimately have b: "bytes_to_read s2 \<noteq> 0" by (simp add: bytes_to_read_0_iff)
    have st2: "src_stream s2 = Some (st\<lparr>unread := drop n (unread st)\<rparr>)"
      using f1 by (simp add: s2_def)
    show "pending_read s' \<noteq> None \<and> partition_index s' = partition_index s \<and>
         completions s' = []"
      using h(4) f1 by (simp add: e ScheduleRead_pos [OF b st2]) (simp add: s2_def)
  qed
  show ?thesis using rem A B C by blast
qed


text \<open>
  A device of three bytes behind a partition declared with five: the second read finds
  the end of the device.
\<close>

theorem read_loop_ends_witness:
  "pending_read (run_verifier test_env kVerifyTargetHash
      (Some (test_plan [test_partition ''root'' 5 [6]])) True [ReadDone 3]) = Some 2
   \<and> delivered 1 2 \<lparr>stream_path = ''/dev/root'', unread = [], is_open = True\<rparr> = 0
   \<and> remaining_size (run_verifier test_env kVerifyTargetHash
      (Some (test_plan [test_partition ''root'' 5 [6]])) True [ReadDone 3]) \<noteq> 0
   \<and> completions (dispatch test_env (ReadDone 1) (run_verifier test_env kVerifyTargetHash
      (Some (test_plan [test_partition ''root'' 5 [6]])) True [ReadDone 3]))
       = [kFilesystemVerifierError]"
proof -
  define s where "s = run_verifier test_env kVerifyTargetHash
      (Some (test_plan [test_partition ''root'' 5 [6]])) True [ReadDone 3]"
  define st where "st = \<lparr>stream_path = ''/dev/root'', unread = ([] :: blob), is_open = True\<rparr>"
  have h: "\<not> aborted s" "pending_read s = Some 2" "src_stream s = Some st"
    "hasher s = Some [1, 2, 3]"
    "\<not> aborted (dispatch test_env (ReadDone 1) s)"
    by (simp_all add: s_def st_def verifier_run_simps)
  have z: "delivered 1 2 st = 0" by (simp add: st_def delivered_def)
  from read_loop_ends [OF s_def h(1) h(2) h(3) h(4) refl refl h(5)] z
  have "remaining_size s \<noteq> 0"
    and "completions (dispatch test_env (ReadDone 1) s) = [kFilesystemVerifierError]"
    by blast+
  with h(2) z show ?thesis by (simp add: s_def st_def)
qed

lemma same_plan_refl [simp]: "same_plan s s"
  by (simp add: same_plan_def)

lemma same_plan_trans: "same_plan s s1 \<Longrightarrow> same_plan s1 s2 \<Longrightarrow> same_plan s s2"
  by (auto simp: same_plan_def)

lemma same_plan_Cleanup [simp]: "same_plan s (Cleanup c s)"
  by (simp add: same_plan_def)

lemma same_plan_account:
  "OnReadDoneCallback_account env n s = Inl s' \<Longrightarrow> same_plan s s'"
  "OnReadDoneCallback_account env n s = Inr s' \<Longrightarrow> same_plan s s'"
  by (auto simp: OnReadDoneCallback_account_def Let_def same_plan_def
      split: if_splits option.splits)

lemma same_plan_switch:
  "FinishPartitionHashing_switch env d s = Some s' \<Longrightarrow> same_plan s s'"
  by (auto simp: FinishPartitionHashing_switch_def Let_def same_plan_def
      split: if_splits VerifierMode.splits)

lemma same_plan_step:
  "same_plan s (StartPartitionHashing env s)"
  "same_plan s (ScheduleRead env s)"
  "same_plan s (OnReadDoneCallback env n s)"
  "same_plan s (FinishPartitionHashing env s)"
proof (induction env s and env s and env n s and env s
    rule: StartPartitionHashing_ScheduleRead_OnReadDoneCallback_FinishPartitionHashing.induct)
  case (1 env s)
  show ?case
  proof (cases "partition_index s < length (partitions (install_plan s))")
    case False
    then show ?thesis
      by (subst StartPartitionHashing.simps) (simp add: same_plan_def)
  next
    case lt: True
    define p where "p = partitions (install_plan s) ! partition_index s"
    define path where "path = device_of env (verifier_mode s) (install_plan s) p"
    define s1 where "s1 = s\<lparr>remaining_size := size_of (verifier_mode s) p\<rparr>"
    show ?thesis
    proof (cases "path \<noteq> [] \<and> FileStream_Open env path \<noteq> None")
      case False
      then have "StartPartitionHashing env s =
          (if path = [] then Cleanup kFilesystemVerifierError s1
           else Cleanup kFilesystemVerifierError
                  (s1\<lparr>src_stream := None, opened := opened s1 @ [path]\<rparr>))"
        using lt
        by (auto simp: StartPartitionHashing_unfold Let_def
            p_def [symmetric] path_def [symmetric] s1_def)
      then show ?thesis by (simp add: same_plan_def s1_def)
    next
      case True
      then obtain data where nonempty: "path \<noteq> []" and op: "FileStream_Open env path = Some data"
        by auto
      have ne: "partition_index s \<noteq> length (partitions (install_plan s))"
        and lt': "\<not> length (partitions (install_plan s)) < partition_index s"
        using lt by simp_all
      have pe: "path = (case verifier_mode s of
            kComputeSourceHash \<Rightarrow>
              (case GetPartitionDevice env (name p) (source_slot (install_plan s)) of
                 None \<Rightarrow> [] | Some p \<Rightarrow> p)
          | kVerifyTargetHash \<Rightarrow>
              (case GetPartitionDevice env (name p) (target_slot (install_plan s)) of
                 None \<Rightarrow> [] | Some p \<Rightarrow> p))"
        by (simp add: path_def device_of_def split: VerifierMode.splits)
      have se: "s1 = s\<lparr>remaining_size :=
                    (case verifier_mode s of
                       kComputeSourceHash \<Rightarrow> source_size p
                     | kVerifyTargetHash \<Rightarrow> target_size p)\<rparr>"
        by (simp add: s1_def size_of_def)
      define s2 where "s2 = s1\<lparr>src_stream :=
              Some \<lparr>stream_path = path, unread = data, is_open = True\<rparr>,
            opened := opened s1 @ [path],
            buffer := resize kReadFileBufferSize (buffer s1),
            read_done := False, hasher := Some []\<rparr>"
      have e: "StartPartitionHashing env s = ScheduleRead env s2"
        using lt nonempty op
        by (simp add: StartPartitionHashing_unfold Let_def
            p_def [symmetric] path_def [symmetric] s1_def s2_def)
      have "same_plan s2 (ScheduleRead env s2)"
        using "1.IH" [OF ne lt' p_def pe se nonempty op] by (simp add: s2_def)
      moreover have "same_plan s s2" by (simp add: same_plan_def s2_def s1_def)
      ultimately show ?thesis
        unfolding e by (rule same_plan_trans [rotated])
    qed
  qed
next
  case (2 env s)
  show ?case
    using "2.IH"
    by (subst ScheduleRead.simps) (auto simp: Let_def same_plan_def split: option.splits)
next
  case (3 env n s)
  show ?case
  proof (cases "OnReadDoneCallback_account env n s")
    case (Inl s')
    then show ?thesis
      by (subst OnReadDoneCallback.simps) (simp add: same_plan_account)
  next
    case (Inr s1)
    note sp = same_plan_account(2) [OF Inr]
    show ?thesis
      using "3.IH" [OF Inr] sp
      by (subst OnReadDoneCallback.simps)
         (auto simp: Inr intro: same_plan_trans [OF sp] same_plan_trans [OF sp same_plan_Cleanup])
  qed
next
  case (4 env s)
  show ?case
  proof (cases "\<exists>d s1 st. hasher s = Some d \<and> Hash_Finalize_ok env d \<and>
      partition_index s < length (partitions (install_plan s)) \<and>
      FinishPartitionHashing_switch env d s = Some s1 \<and> src_stream s1 = Some st")
    case False
    then show ?thesis
      by (subst FinishPartitionHashing.simps)
         (auto simp: same_plan_def dest: same_plan_switch split: option.splits)
  next
    case True
    then obtain d s1 st where d: "hasher s = Some d" and fin: "Hash_Finalize_ok env d"
      and lt: "partition_index s < length (partitions (install_plan s))"
      and sw: "FinishPartitionHashing_switch env d s = Some s1"
      and st: "src_stream s1 = Some st"
      by blast
    define s2 where "s2 = s1\<lparr>partition_index := partition_index s1 + 1, hasher := None,
        buffer := [], src_stream := Some (st\<lparr>is_open := False\<rparr>)\<rparr>"
    have "same_plan s2 (StartPartitionHashing env s2)"
      using "4.IH" [OF d _ _ sw st] fin lt by (simp add: s2_def)
    moreover have "same_plan s s2"
      using same_plan_switch [OF sw] by (simp add: same_plan_def s2_def)
    ultimately have "same_plan s (StartPartitionHashing env s2)"
      by (rule same_plan_trans [rotated])
    then show ?thesis
      using d fin lt sw st
      by (subst FinishPartitionHashing.simps) (simp add: s2_def)
  qed
qed

lemma same_plan_dispatch: "same_plan s (dispatch env ev s)"
proof -
  have f: "\<And>n st. same_plan s (fill_buffer n st s)"
    by (simp add: same_plan_def fill_buffer_def)
  have g: "same_plan s (s\<lparr>pending_read := None\<rparr>)" "same_plan s (s\<lparr>cancelled := True\<rparr>)"
     "same_plan s (s\<lparr>aborted := True\<rparr>)"
    by (simp_all add: same_plan_def)
  show ?thesis
    by (auto simp: dispatch_def OnReadErrorCallback_def TerminateProcessing_def
        split: Event.splits option.splits
        intro: same_plan_trans [OF f same_plan_step(3)] same_plan_trans [OF g(1) same_plan_Cleanup]
          same_plan_trans [OF g(2) same_plan_Cleanup] g(3))
qed

lemma run_verifier_plan:
  "verifier_mode (run_verifier env kVerifyTargetHash (Some plan) pipe evs) = kVerifyTargetHash
   \<and> install_plan (run_verifier env kVerifyTargetHash (Some plan) pipe evs) = plan"
proof (induction evs rule: rev_induct)
  case Nil
  define s0 where "s0 = FilesystemVerifierAction_new kVerifyTargetHash (Some plan) pipe
     \<lparr>install_plan := plan\<rparr>"
  have "same_plan s0 (StartPartitionHashing env s0)" by (rule same_plan_step)
  then show ?case
    by (simp add: run_verifier_def PerformAction_def PerformAction_legacy_def
        FilesystemVerifierAction_new_def ActionComplete_def SetOutputObject_def same_plan_def s0_def)
next
  case (snoc ev evs)
  then show ?case
    using same_plan_dispatch [of "run_verifier env kVerifyTargetHash (Some plan) pipe evs" env ev]
    by (simp add: run_verifier_snoc same_plan_def)
qed

text \<open>
  One read completion from a state of a run in which a read is in flight, in full.
\<close>

lemma ReadDone_unfold:
  assumes s: "s = run_verifier env mode inp pipe evs"
    and alive: "\<not> aborted s"
    and pending: "pending_read s = Some r"
    and st: "src_stream s = Some st"
    and d: "hasher s = Some d"
    and n: "n = delivered k r st"
    and fit: "n \<le> length (buffer s)"
  shows "dispatch env (ReadDone k) s =
     (let s1 = fill_buffer n st s; chunk = take n (unread st) in
      if n = 0 then Cleanup kFilesystemVerifierError (s1\<lparr>read_done := True\<rparr>)
      else if \<not> Hash_Update_ok env d chunk
      then Cleanup kError (s1\<lparr>remaining_size := remaining_size s - of_nat n\<rparr>)
      else if remaining_size s = of_nat n then
        (let s2 = s1\<lparr>remaining_size := 0, hasher := Some (d @ chunk)\<rparr> in
         if \<not> Hash_Finalize_ok env (d @ chunk) then Cleanup kError s2
         else
           (case verifier_mode s of
              kComputeSourceHash \<Rightarrow>
                StartPartitionHashing env
                  (s2\<lparr>install_plan := (install_plan s)\<lparr>partitions :=
                       (partitions (install_plan s))
                         [partition_index s :=
                            (partitions (install_plan s) ! partition_index s)
                              \<lparr>source_hash := raw_hash env (d @ chunk)\<rparr>]\<rparr>,
                     partition_index := partition_index s + 1, hasher := None, buffer := [],
                     src_stream := Some (st\<lparr>unread := drop n (unread st), is_open := False\<rparr>)\<rparr>)
            | kVerifyTargetHash \<Rightarrow>
                if target_hash (partitions (install_plan s) ! partition_index s)
                     \<noteq> raw_hash env (d @ chunk)
                then Cleanup kNewRootfsVerificationError s2
                else StartPartitionHashing env
                  (s2\<lparr>partition_index := partition_index s + 1, hasher := None, buffer := [],
                     src_stream := Some (st\<lparr>unread := drop n (unread st), is_open := False\<rparr>)\<rparr>)))
      else
        (let s2 = s1\<lparr>remaining_size := remaining_size s - of_nat n,
                     hasher := Some (d @ chunk)\<rparr> in
         if \<not> ReadAsync_ok env (st\<lparr>unread := drop n (unread st)\<rparr>) then Cleanup kError s2
         else s2\<lparr>pending_read := Some (bytes_to_read s2)\<rparr>))"
proof -
  note rs = reading_state [OF s alive pending]
  from rs(6) st d have len: "length (buffer s) = kReadFileBufferSize"
    and lt: "partition_index s < length (partitions (install_plan s))"
    by (simp_all add: hashing_def Let_def)
  have rem: "remaining_size s \<noteq> 0"
    using rs(4,5) bytes_to_read_0_iff [OF len] by simp
  define s1 where "s1 = fill_buffer n st s"
  define chunk where "chunk = take n (unread st)"
  have nle: "n \<le> length (unread st)" unfolding n by (rule delivered_le_unread)
  have e: "dispatch env (ReadDone k) s = OnReadDoneCallback env n s1"
    using alive pending st fit by (simp add: dispatch_def n s1_def)
  have f1: "\<not> cancelled s1" "\<not> read_done s1" "hasher s1 = Some d"
    "remaining_size s1 = remaining_size s" "partition_index s1 = partition_index s"
    "length (buffer s1) = kReadFileBufferSize" "install_plan s1 = install_plan s"
    "verifier_mode s1 = verifier_mode s"
    "src_stream s1 = Some (st\<lparr>unread := drop n (unread st)\<rparr>)"
    using rs d fit len nle by (simp_all add: s1_def fill_buffer_def)
  from nle have tk: "take n (buffer s1) = chunk"
    by (simp add: s1_def fill_buffer_def chunk_def)
  show ?thesis
  proof (cases "n = 0")
    case True
    then show ?thesis
      using f1 rem by (simp add: e OnReadDoneCallback_zero Let_def s1_def)
  next
    case pos: False
    show ?thesis
    proof (cases "Hash_Update_ok env d chunk")
      case False
      then show ?thesis
        using pos f1 tk
        by (simp add: e OnReadDoneCallback_pos [where d = d] Let_def
            s1_def [symmetric] chunk_def [symmetric])
    next
      case upd: True
      show ?thesis
      proof (cases "remaining_size s = of_nat n")
        case last: True
        define s2 where "s2 = s1\<lparr>remaining_size := 0, hasher := Some (d @ chunk)\<rparr>"
        have e2: "dispatch env (ReadDone k) s = FinishPartitionHashing env s2"
          using pos upd last f1 tk by (simp add: e OnReadDoneCallback_pos [where d = d] s2_def)
        show ?thesis
        proof (cases "Hash_Finalize_ok env (d @ chunk)")
          case False
          then show ?thesis
            using pos upd last
            by (simp add: e2 FinishPartitionHashing_fail [where d = "d @ chunk"] Let_def
                s1_def [symmetric] chunk_def [symmetric] s2_def)
        next
          case fin: True
          have "FinishPartitionHashing env s2 = 
           (case verifier_mode s2 of
              kComputeSourceHash \<Rightarrow>
                StartPartitionHashing env
                  (s2\<lparr>install_plan := (install_plan s2)\<lparr>partitions :=
                       (partitions (install_plan s2))
                         [partition_index s2 :=
                            (partitions (install_plan s2) ! partition_index s2)
                              \<lparr>source_hash := raw_hash env (d @ chunk)\<rparr>]\<rparr>,
                     partition_index := partition_index s2 + 1, hasher := None, buffer := [],
                     src_stream := Some (st\<lparr>unread := drop n (unread st), is_open := False\<rparr>)\<rparr>)
            | kVerifyTargetHash \<Rightarrow>
                if target_hash (partitions (install_plan s2) ! partition_index s2)
                     \<noteq> raw_hash env (d @ chunk)
                then Cleanup kNewRootfsVerificationError s2
                else StartPartitionHashing env
                  (s2\<lparr>partition_index := partition_index s2 + 1, hasher := None, buffer := [],
                     src_stream := Some (st\<lparr>unread := drop n (unread st), is_open := False\<rparr>)\<rparr>))"
            using fin f1 lt
            by (subst FinishPartitionHashing_unfold
                [where d = "d @ chunk" and st = "st\<lparr>unread := drop n (unread st)\<rparr>"])
               (simp_all add: s2_def)
          then show ?thesis
            using pos upd last fin f1
            by (cases "verifier_mode s")
               (simp_all add: e2 Let_def s1_def [symmetric] chunk_def [symmetric] s2_def)
        qed
      next
        case more: False
        define s2 where "s2 = s1\<lparr>remaining_size := remaining_size s - of_nat n,
                     hasher := Some (d @ chunk)\<rparr>"
        have e2: "dispatch env (ReadDone k) s = ScheduleRead env s2"
          using pos upd more f1 tk by (simp add: e OnReadDoneCallback_pos [where d = d] s2_def)
        have "remaining_size s2 \<noteq> 0" using more by (simp add: s2_def)
        moreover have "length (buffer s2) = kReadFileBufferSize" using f1 by (simp add: s2_def)
        ultimately have b: "bytes_to_read s2 \<noteq> 0" by (simp add: bytes_to_read_0_iff)
        have st2: "src_stream s2 = Some (st\<lparr>unread := drop n (unread st)\<rparr>)"
          using f1 by (simp add: s2_def)
        show ?thesis
          using pos upd more
          by (simp add: e2 ScheduleRead_pos [OF b st2] Let_def
              s1_def [symmetric] chunk_def [symmetric] s2_def [symmetric])
      qed
    qed
  qed
qed

lemma success_at_end_none [simp]: "completions s = [] \<Longrightarrow> success_at_end s"
  by (simp add: success_at_end_def)

lemma success_at_end_aborted [simp]:
  "success_at_end (s\<lparr>aborted := True\<rparr>) = success_at_end s"
  by (simp add: success_at_end_def)

lemma success_at_end_Cleanup:
  "completions s = [] \<Longrightarrow>
   c = kSuccess \<longrightarrow> partition_index s = length (partitions (install_plan s)) \<Longrightarrow>
   success_at_end (Cleanup c s)"
  by (simp add: success_at_end_def)

lemma account_completions:
  "OnReadDoneCallback_account env n s = Inl s' \<Longrightarrow> completions s = [] \<Longrightarrow> success_at_end s'"
  "OnReadDoneCallback_account env n s = Inr s' \<Longrightarrow> completions s' = completions s"
  by (auto simp: OnReadDoneCallback_account_def Let_def success_at_end_def
      split: if_splits option.splits)

lemma switch_completions:
  "FinishPartitionHashing_switch env d s = Some s' \<Longrightarrow> completions s' = completions s"
  by (auto simp: FinishPartitionHashing_switch_def Let_def split: if_splits VerifierMode.splits)

lemma success_at_end_step:
  "completions s = [] \<Longrightarrow> success_at_end (StartPartitionHashing env s)"
  "completions s = [] \<Longrightarrow> success_at_end (ScheduleRead env s)"
  "completions s = [] \<Longrightarrow> success_at_end (OnReadDoneCallback env n s)"
  "completions s = [] \<Longrightarrow> success_at_end (FinishPartitionHashing env s)"
proof (induction env s and env s and env n s and env s
    rule: StartPartitionHashing_ScheduleRead_OnReadDoneCallback_FinishPartitionHashing.induct)
  case (1 env s)
  note c = "1.prems"
  show ?case
  proof (cases "partition_index s < length (partitions (install_plan s))")
    case False
    then show ?thesis
      using c by (subst StartPartitionHashing.simps) (simp add: success_at_end_Cleanup)
  next
    case lt: True
    define p where "p = partitions (install_plan s) ! partition_index s"
    define path where "path = device_of env (verifier_mode s) (install_plan s) p"
    define s1 where "s1 = s\<lparr>remaining_size := size_of (verifier_mode s) p\<rparr>"
    show ?thesis
    proof (cases "path \<noteq> [] \<and> FileStream_Open env path \<noteq> None")
      case False
      then have "StartPartitionHashing env s =
          (if path = [] then Cleanup kFilesystemVerifierError s1
           else Cleanup kFilesystemVerifierError
                  (s1\<lparr>src_stream := None, opened := opened s1 @ [path]\<rparr>))"
        using lt
        by (auto simp: StartPartitionHashing_unfold Let_def
            p_def [symmetric] path_def [symmetric] s1_def)
      then show ?thesis using c by (simp add: success_at_end_Cleanup s1_def)
    next
      case True
      then obtain data where nonempty: "path \<noteq> []" and op: "FileStream_Open env path = Some data"
        by auto
      have ne: "partition_index s \<noteq> length (partitions (install_plan s))"
        and lt': "\<not> length (partitions (install_plan s)) < partition_index s"
        using lt by simp_all
      have pe: "path = (case verifier_mode s of
            kComputeSourceHash \<Rightarrow>
              (case GetPartitionDevice env (name p) (source_slot (install_plan s)) of
                 None \<Rightarrow> [] | Some p \<Rightarrow> p)
          | kVerifyTargetHash \<Rightarrow>
              (case GetPartitionDevice env (name p) (target_slot (install_plan s)) of
                 None \<Rightarrow> [] | Some p \<Rightarrow> p))"
        by (simp add: path_def device_of_def split: VerifierMode.splits)
      have se: "s1 = s\<lparr>remaining_size :=
                    (case verifier_mode s of
                       kComputeSourceHash \<Rightarrow> source_size p
                     | kVerifyTargetHash \<Rightarrow> target_size p)\<rparr>"
        by (simp add: s1_def size_of_def)
      define s2 where "s2 = s1\<lparr>src_stream :=
              Some \<lparr>stream_path = path, unread = data, is_open = True\<rparr>,
            opened := opened s1 @ [path],
            buffer := resize kReadFileBufferSize (buffer s1),
            read_done := False, hasher := Some []\<rparr>"
      have e: "StartPartitionHashing env s = ScheduleRead env s2"
        using lt nonempty op
        by (simp add: StartPartitionHashing_unfold Let_def
            p_def [symmetric] path_def [symmetric] s1_def s2_def)
      have "success_at_end (ScheduleRead env s2)"
        using "1.IH" [OF ne lt' p_def pe se nonempty op] c by (simp add: s2_def s1_def)
      then show ?thesis unfolding e .
    qed
  qed
next
  case (2 env s)
  show ?case
    using "2.IH" "2.prems"
    by (subst ScheduleRead.simps)
       (auto simp: Let_def success_at_end_Cleanup split: option.splits)
next
  case (3 env n s)
  note c = "3.prems"
  show ?case
  proof (cases "OnReadDoneCallback_account env n s")
    case (Inl s')
    then show ?thesis
      using c by (subst OnReadDoneCallback.simps) (simp add: account_completions(1))
  next
    case (Inr s1)
    have c1: "completions s1 = []" using account_completions(2) [OF Inr] c by simp
    show ?thesis
      using "3.IH" [OF Inr] c1
      by (subst OnReadDoneCallback.simps) (auto simp: Inr success_at_end_Cleanup)
  qed
next
  case (4 env s)
  note c = "4.prems"
  show ?case
  proof (cases "\<exists>d s1 st. hasher s = Some d \<and> Hash_Finalize_ok env d \<and>
      partition_index s < length (partitions (install_plan s)) \<and>
      FinishPartitionHashing_switch env d s = Some s1 \<and> src_stream s1 = Some st")
    case False
    then show ?thesis
      using c
      by (subst FinishPartitionHashing.simps)
         (auto simp: success_at_end_Cleanup switch_completions split: option.splits)
  next
    case True
    then obtain d s1 st where d: "hasher s = Some d" and fin: "Hash_Finalize_ok env d"
      and lt: "partition_index s < length (partitions (install_plan s))"
      and sw: "FinishPartitionHashing_switch env d s = Some s1"
      and st: "src_stream s1 = Some st"
      by blast
    define s2 where "s2 = s1\<lparr>partition_index := partition_index s1 + 1, hasher := None,
        buffer := [], src_stream := Some (st\<lparr>is_open := False\<rparr>)\<rparr>"
    have "completions s2 = []" using switch_completions [OF sw] c by (simp add: s2_def)
    then have "success_at_end (StartPartitionHashing env s2)"
      using "4.IH" [OF d _ _ sw st] fin lt by (simp add: s2_def)
    then show ?thesis
      using d fin lt sw st
      by (subst FinishPartitionHashing.simps) (simp add: s2_def)
  qed
qed

lemma success_at_end_dispatch:
  assumes "completions s = []"
  shows "success_at_end (dispatch env ev s)"
proof (cases "aborted s")
  case True
  then show ?thesis using assms by (simp add: dispatch_def)
next
  case na: False
  show ?thesis
  proof (cases ev)
    case (ReadDone k)
    have "\<And>n st. success_at_end (OnReadDoneCallback env n (fill_buffer n st s))"
      by (rule success_at_end_step(3)) (simp add: fill_buffer_def assms)
    then show ?thesis
      using assms na ReadDone by (simp add: dispatch_def split: option.splits)
  next
    case ReadError
    have "success_at_end (Cleanup kError (s\<lparr>pending_read := None\<rparr>))"
      by (rule success_at_end_Cleanup) (simp_all add: assms)
    then show ?thesis
      using assms na ReadError
      by (simp add: dispatch_def OnReadErrorCallback_def split: option.splits)
  next
    case Terminate
    then show ?thesis
      using assms na by (simp add: dispatch_def TerminateProcessing_def success_at_end_def)
  qed
qed

lemma dispatch_completed:
  assumes "settled env s" "completions s \<noteq> []"
  shows "dispatch env ev s = s"
  using assms
  by (cases ev) (auto simp: dispatch_def settled_def split: option.splits)

lemma success_at_end_PerformAction:
  "success_at_end (PerformAction env (FilesystemVerifierAction_new mode inp pipe))"
proof (cases inp)
  case None
  then show ?thesis
    by (simp add: PerformAction_def FilesystemVerifierAction_new_def ActionComplete_def
        success_at_end_def)
next
  case (Some plan)
  define s0 where "s0 = FilesystemVerifierAction_new mode inp pipe\<lparr>install_plan := plan\<rparr>"
  have inp: "input_object (FilesystemVerifierAction_new mode inp pipe) = Some plan"
    using Some by (simp add: FilesystemVerifierAction_new_def)
  have c0: "completions s0 = []" "partition_index s0 = 0"
    by (simp_all add: s0_def FilesystemVerifierAction_new_def)
  show ?thesis
  proof (cases "PerformAction_legacy env s0")
    case (Inl s')
    from legacy_preserves [of env s0 s'] Inl c0
    have "success_at_end (ActionComplete kError s')"
      by (simp add: success_at_end_def ActionComplete_def)
    then show ?thesis using inp Inl by (simp add: PerformAction_def s0_def [symmetric])
  next
    case (Inr s1)
    from legacy_preserves [of env s0 s1] Inr c0
    have p: "completions s1 = []" "partition_index s1 = 0" by simp_all
    show ?thesis
    proof (cases "partitions (install_plan s1) = []")
      case True
      have "success_at_end (ActionComplete kSuccess
                   (if has_output_pipe s1 then SetOutputObject (install_plan s1) s1 else s1))"
        using p True by (simp add: success_at_end_def ActionComplete_def SetOutputObject_def)
      then show ?thesis using inp Inr True by (simp add: PerformAction_def s0_def [symmetric])
    next
      case False
      have "success_at_end (StartPartitionHashing env s1)"
        using p(1) by (rule success_at_end_step(1))
      then show ?thesis using inp Inr False by (simp add: PerformAction_def s0_def [symmetric])
    qed
  qed
qed

lemma run_verifier_success:
  "\<not> aborted (run_verifier env mode inp pipe evs) \<Longrightarrow>
   success_at_end (run_verifier env mode inp pipe evs)"
proof (induction evs rule: rev_induct)
  case Nil
  show ?case by (simp add: run_verifier_def success_at_end_PerformAction)
next
  case (snoc ev evs)
  define s where "s = run_verifier env mode inp pipe evs"
  have e: "run_verifier env mode inp pipe (evs @ [ev]) = dispatch env ev s"
    by (simp add: run_verifier_snoc s_def)
  from snoc.prems have na: "\<not> aborted s"
    unfolding e by (auto simp: aborted_dispatch)
  then have i: "success_at_end s" and st: "settled env s"
    using snoc.IH run_verifier_inv [of env mode inp pipe evs] by (simp_all add: s_def)
  show ?case
  proof (cases "completions s = []")
    case True
    then show ?thesis unfolding e by (rule success_at_end_dispatch)
  next
    case False
    then show ?thesis unfolding e using i dispatch_completed [OF st] by simp
  qed
qed

text \<open>
  Claim C1. Take any point of any run in the verifying mode at which a read is in flight
  on a partition \<open>p\<close> (the process alive), \<open>d\<close> being the bytes hashed so far, and let
  the read complete with \<open>n\<close> bytes. Every partition the action has advanced past is
  verified: its target device holds at least \<open>target_size\<close> bytes and the digest of the
  first \<open>target_size\<close> bytes is its \<open>target_hash\<close>. The stream is the target slot's
  device of \<open>p\<close>, and \<open>d\<close> is its beginning. The action advances past \<open>p\<close> on this
  read if and only if the read brings the hashed bytes to \<open>target_size\<close>, the hash
  calculator accepts them and finalizes, and the digest of the first \<open>target_size\<close>
  bytes of the device equals \<open>target_hash\<close>; when the digest is computed and differs,
  the action completes with \<open>kNewRootfsVerificationError\<close> and stays at \<open>p\<close>.
  Advancing is with success: when \<open>p\<close> is the last partition the action completes with
  \<open>kSuccess\<close>, once, and passes the plan on to its output pipe; when it is not, and the
  next partition \<open>q\<close> is not empty, its device opens and the first read on it is
  accepted, nothing is completed and that read is in flight on \<open>q\<close>. And \<open>kSuccess\<close> is
  delivered by this read only if the action is at the end of the partitions and every
  partition of the plan is verified.
\<close>

theorem target_hash_decides:
  assumes s: "s = run_verifier env kVerifyTargetHash (Some plan) pipe evs"
    and alive: "\<not> aborted s"
    and pending: "pending_read s = Some r"
    and st: "src_stream s = Some st"
    and d: "hasher s = Some d"
    and n: "n = delivered k r st"
    and s': "s' = dispatch env (ReadDone k) s"
    and fits: "\<not> aborted s'"
    and p: "p = partitions plan ! partition_index s"
    and device: "device = d @ unread st"
    and q: "q = partitions plan ! (partition_index s + 1)"
    and next_stream: "next_stream =
        \<lparr>stream_path = device_of env kVerifyTargetHash plan q, unread = data, is_open = True\<rparr>"
  shows "list_all (target_hash_matches env plan) (take (partition_index s) (partitions plan))
    \<and> FileStream_Open env (device_of env kVerifyTargetHash plan p) = Some device
    \<and> length d + unat (remaining_size s) = unat (target_size p)
    \<and> (partition_index s < partition_index s' \<longleftrightarrow>
          n \<noteq> 0 \<and> remaining_size s = of_nat n \<and>
          Hash_Update_ok env d (take n (unread st)) \<and>
          Hash_Finalize_ok env (d @ take n (unread st)) \<and>
          raw_hash env (take (unat (target_size p)) device) = target_hash p)
    \<and> (n \<noteq> 0 \<and> remaining_size s = of_nat n \<and>
          Hash_Update_ok env d (take n (unread st)) \<and>
          Hash_Finalize_ok env (d @ take n (unread st)) \<longrightarrow>
          d @ take n (unread st) = take (unat (target_size p)) device \<and>
          (raw_hash env (take (unat (target_size p)) device) \<noteq> target_hash p \<longrightarrow>
             completions s' = [kNewRootfsVerificationError] \<and>
             partition_index s' = partition_index s))
    \<and> (n \<noteq> 0 \<and> remaining_size s = of_nat n \<and>
          Hash_Update_ok env d (take n (unread st)) \<and>
          Hash_Finalize_ok env (d @ take n (unread st)) \<and>
          raw_hash env (take (unat (target_size p)) device) = target_hash p \<longrightarrow>
          (partition_index s + 1 = length (partitions plan) \<longrightarrow>
             completions s' = [kSuccess] \<and> partition_index s' = length (partitions plan) \<and>
             pending_read s' = None \<and>
             output_object s' = (if has_output_pipe s then Some plan else output_object s)) \<and>
          (partition_index s + 1 < length (partitions plan) \<and>
           device_of env kVerifyTargetHash plan q \<noteq> [] \<and>
           FileStream_Open env (device_of env kVerifyTargetHash plan q) = Some data \<and>
           target_size q \<noteq> 0 \<and> ReadAsync_ok env next_stream \<longrightarrow>
             completions s' = [] \<and> partition_index s' = partition_index s + 1 \<and>
             pending_read s' \<noteq> None \<and> src_stream s' = Some next_stream \<and>
             remaining_size s' = target_size q \<and> hasher s' = Some []))
    \<and> (kSuccess \<in> set (completions s') \<longrightarrow>
          completions s' = [kSuccess] \<and>
          partition_index s' = length (partitions plan) \<and>
          list_all (target_hash_matches env plan) (partitions plan))"
proof -
  note rs = reading_state [OF s alive pending]
  have mode: "verifier_mode s = kVerifyTargetHash" and plan: "install_plan s = plan"
    using run_verifier_plan [of env plan pipe evs] by (simp_all add: s)
  from rs(6) st d mode plan
  have dev: "FileStream_Open env (device_of env kVerifyTargetHash plan p) = Some device"
    and size: "length d + unat (remaining_size s) = unat (target_size p)"
    and len: "length (buffer s) = kReadFileBufferSize"
    by (auto simp: hashing_def Let_def p device size_of_def)
  have A: "list_all (target_hash_matches env plan) (take (partition_index s) (partitions plan))"
    using rs(7) mode plan by (simp add: verified_prefix_def)
  have fit: "n \<le> length (buffer s)"
    using fits alive pending st by (auto simp: s' dispatch_def n split: if_splits)
  have nle: "n \<le> length (unread st)" unfolding n by (rule delivered_le_unread)
  have nr: "n \<le> unat (remaining_size s)"
    using delivered_le_request [OF rs(5), of k st] bytes_to_read_le [OF len] rs(4)
    by (simp add: n)
  define s1 where "s1 = fill_buffer n st s"
  define chunk where "chunk = take n (unread st)"
  note u = ReadDone_unfold [OF s alive pending st d n fit, folded s', unfolded Let_def mode plan,
      folded s1_def chunk_def p, simplified]
  have i1: "partition_index s1 = partition_index s" "completions s1 = []" "\<not> cancelled s1"
    using rs by (simp_all add: s1_def fill_buffer_def)
  have last: "d @ chunk = take (unat (target_size p)) device"
    if "remaining_size s = of_nat n"
  proof -
    from that nr have "unat (remaining_size s) = n"
      by (metis le_unat_uoi)
    with size have "unat (target_size p) - length d = n"
      and "length d \<le> unat (target_size p)" by simp_all
    then show ?thesis by (simp add: device chunk_def)
  qed
  have run': "s' = run_verifier env kVerifyTargetHash (Some plan) pipe (evs @ [ReadDone k])"
    by (simp add: s' s run_verifier_snoc)
  have plan': "verifier_mode s' = kVerifyTargetHash" "install_plan s' = plan"
    using run_verifier_plan [of env plan pipe "evs @ [ReadDone k]"] by (simp_all add: run')
  have settled': "settled env s'"
    using run_verifier_inv [of env kVerifyTargetHash "Some plan" pipe "evs @ [ReadDone k]"] fits
    by (simp add: run')
  have end': "success_at_end s'"
    using run_verifier_success [of env kVerifyTargetHash "Some plan" pipe "evs @ [ReadDone k]"]
      fits
    by (simp add: run')
  have S: "kSuccess \<in> set (completions s') \<longrightarrow>
          completions s' = [kSuccess] \<and>
          partition_index s' = length (partitions plan) \<and>
          list_all (target_hash_matches env plan) (partitions plan)"
  proof
    assume k: "kSuccess \<in> set (completions s')"
    with end' plan' have e: "partition_index s' = length (partitions plan)"
      by (simp add: success_at_end_def)
    from settled' plan' e
    have all: "list_all (target_hash_matches env plan) (partitions plan)"
      by (simp add: settled_def verified_prefix_def)
    from settled' k have "length (completions s') = 1"
      by (auto simp: settled_def split: option.splits if_splits)
    with k have "completions s' = [kSuccess]"
      by (cases "completions s'") simp_all
    with e all show "completions s' = [kSuccess] \<and>
          partition_index s' = length (partitions plan) \<and>
          list_all (target_hash_matches env plan) (partitions plan)"
      by simp
  qed
  show ?thesis
  proof (cases "n \<noteq> 0 \<and> remaining_size s = of_nat n \<and> Hash_Update_ok env d chunk \<and>
      Hash_Finalize_ok env (d @ chunk)")
    case False
    then have "partition_index s' = partition_index s"
      using u i1 by (auto simp: Let_def)
    then show ?thesis using A dev size False S unfolding chunk_def by auto
  next
    case True
    then have l: "d @ chunk = take (unat (target_size p)) device" using last by simp
    show ?thesis
    proof (cases "raw_hash env (take (unat (target_size p)) device) = target_hash p")
      case ne: False
      then have "s' = Cleanup kNewRootfsVerificationError
          (s1\<lparr>remaining_size := 0, hasher := Some (d @ chunk)\<rparr>)"
        using u True l by auto
      then have "completions s' = [kNewRootfsVerificationError]"
        "partition_index s' = partition_index s"
        using i1 by simp_all
      then show ?thesis using A dev size True l ne S unfolding chunk_def by auto
    next
      case eq: True
      define s0 where "s0 = s1\<lparr>remaining_size := 0, hasher := Some (d @ chunk),
              partition_index := partition_index s + 1, hasher := None, buffer := [],
              src_stream := Some (st\<lparr>unread := drop n (unread st), is_open := False\<rparr>)\<rparr>"
      have e0: "s' = StartPartitionHashing env s0"
        using u True l eq by (auto simp: s0_def)
      have f0: "completions s0 = []" "\<not> cancelled s0" "install_plan s0 = plan"
        "verifier_mode s0 = kVerifyTargetHash" "partition_index s0 = partition_index s + 1"
        "has_output_pipe s0 = has_output_pipe s" "output_object s0 = output_object s"
        "buffer s0 = []"
        using i1 plan mode by (simp_all add: s0_def s1_def fill_buffer_def)
      have adv: "partition_index s < partition_index s'"
        using partition_index_mono(1) [of s0 env] f0(5) by (simp add: e0)
      have L: "completions s' = [kSuccess] \<and> partition_index s' = length (partitions plan) \<and>
             pending_read s' = None \<and>
             output_object s' = (if has_output_pipe s then Some plan else output_object s)"
        if "partition_index s + 1 = length (partitions plan)"
      proof -
        from that f0 have "s' = Cleanup kSuccess s0"
          unfolding e0 by (subst StartPartitionHashing.simps) simp
        then show ?thesis
          using f0 that
          by (simp add: Cleanup_def ActionComplete_def SetOutputObject_def Let_def)
      qed
      have M: "completions s' = [] \<and> partition_index s' = partition_index s + 1 \<and>
             pending_read s' \<noteq> None \<and> src_stream s' = Some next_stream \<and>
             remaining_size s' = target_size q \<and> hasher s' = Some []"
        if lt: "partition_index s + 1 < length (partitions plan)"
          and path: "device_of env kVerifyTargetHash plan q \<noteq> []"
          and op: "FileStream_Open env (device_of env kVerifyTargetHash plan q) = Some data"
          and sz: "target_size q \<noteq> 0" and ra: "ReadAsync_ok env next_stream"
      proof -
        define s2 where "s2 = s0\<lparr>remaining_size := target_size q,
            src_stream := Some next_stream,
            opened := opened s0 @ [device_of env kVerifyTargetHash plan q],
            buffer := resize kReadFileBufferSize [],
            read_done := False, hasher := Some []\<rparr>"
        have "partition_index s0 < length (partitions (install_plan s0))"
          using lt f0 by simp
        note U = StartPartitionHashing_unfold [OF this, of env]
        have q': "partitions plan ! Suc (partition_index s) = q" by (simp add: q)
        have e2: "s' = ScheduleRead env s2"
          unfolding e0 U using f0 path op
          by (simp add: Let_def q' size_of_def s2_def next_stream)
        have "remaining_size s2 \<noteq> 0" using sz by (simp add: s2_def)
        moreover have "length (buffer s2) = kReadFileBufferSize" by (simp add: s2_def)
        ultimately have b: "bytes_to_read s2 \<noteq> 0" by (simp add: bytes_to_read_0_iff)
        have st2: "src_stream s2 = Some next_stream" by (simp add: s2_def)
        have "s' = s2\<lparr>pending_read := Some (bytes_to_read s2)\<rparr>"
          using ra by (simp add: e2 ScheduleRead_pos [OF b st2])
        then show ?thesis using f0 by (simp add: s2_def)
      qed
      have T: "n \<noteq> 0 \<and> remaining_size s = of_nat n \<and>
          Hash_Update_ok env d (take n (unread st)) \<and>
          Hash_Finalize_ok env (d @ take n (unread st))"
        using True by (simp add: chunk_def)
      have l': "d @ take n (unread st) = take (unat (target_size p)) device"
        using l by (simp add: chunk_def)
      from A dev size T l' eq adv L M S show ?thesis by blast
    qed
  qed
qed


text \<open>
  The device \<open>/dev/root\<close> holds \<open>1, 2, 3\<close>, whose checksum is 6. With \<open>target_hash\<close> 6
  the last read takes the action past the partition: the only partition of the plan, so
  the action completes with \<open>kSuccess\<close> and passes the plan on; with \<open>target_hash\<close> 9 it
  completes with \<open>kNewRootfsVerificationError\<close>. With a second partition on
  \<open>/dev/kernel\<close>, the last read of the first leaves a read in flight on the second and
  nothing completed.
\<close>

theorem target_hash_decides_witness:
  "partition_index (run_verifier test_env kVerifyTargetHash
      (Some (test_plan [test_partition ''root'' 3 [6]])) True [ReadDone 2])
     < partition_index (dispatch test_env (ReadDone 1) (run_verifier test_env kVerifyTargetHash
      (Some (test_plan [test_partition ''root'' 3 [6]])) True [ReadDone 2]))
   \<and> completions (dispatch test_env (ReadDone 1) (run_verifier test_env kVerifyTargetHash
      (Some (test_plan [test_partition ''root'' 3 [9]])) True [ReadDone 2]))
     = [kNewRootfsVerificationError]
   \<and> completions (dispatch test_env (ReadDone 1) (run_verifier test_env kVerifyTargetHash
      (Some (test_plan [test_partition ''root'' 3 [6]])) True [ReadDone 2]))
     = [kSuccess]
   \<and> output_object (dispatch test_env (ReadDone 1) (run_verifier test_env kVerifyTargetHash
      (Some (test_plan [test_partition ''root'' 3 [6]])) True [ReadDone 2]))
     = Some (test_plan [test_partition ''root'' 3 [6]])
   \<and> list_all (target_hash_matches test_env (test_plan [test_partition ''root'' 3 [6]]))
        (partitions (test_plan [test_partition ''root'' 3 [6]]))
   \<and> completions (dispatch test_env (ReadDone 1) (run_verifier test_env kVerifyTargetHash
      (Some (test_plan [test_partition ''root'' 3 [6], test_partition ''kernel'' 1 [7]]))
      True [ReadDone 2])) = []
   \<and> partition_index (dispatch test_env (ReadDone 1) (run_verifier test_env kVerifyTargetHash
      (Some (test_plan [test_partition ''root'' 3 [6], test_partition ''kernel'' 1 [7]]))
      True [ReadDone 2])) = 1
   \<and> pending_read (dispatch test_env (ReadDone 1) (run_verifier test_env kVerifyTargetHash
      (Some (test_plan [test_partition ''root'' 3 [6], test_partition ''kernel'' 1 [7]]))
      True [ReadDone 2])) \<noteq> None"
proof -
  define st where "st = \<lparr>stream_path = ''/dev/root'', unread = [3 :: byte], is_open = True\<rparr>"
  have z: "delivered 1 1 st = 1" by (simp add: st_def delivered_def)
  have e: "Hash_Update_ok test_env [1, 2] (take 1 (unread st))"
    "Hash_Finalize_ok test_env ([1, 2] @ take 1 (unread st))"
    "raw_hash test_env (take 3 ([1, 2] @ unread st)) = [6]"
    by (simp_all add: test_env_def st_def)
  define plan6 where "plan6 = test_plan [test_partition ''root'' 3 [6]]"
  define s where "s = run_verifier test_env kVerifyTargetHash (Some plan6) True [ReadDone 2]"
  have h: "\<not> aborted s" "pending_read s = Some 1" "src_stream s = Some st"
    "hasher s = Some [1, 2]" "\<not> aborted (dispatch test_env (ReadDone 1) s)"
    "remaining_size s = 1" "partition_index s = 0" "has_output_pipe s"
    by (simp_all add: s_def plan6_def st_def verifier_run_simps)
  have p: "target_size (partitions plan6 ! partition_index s) = 3"
    "target_hash (partitions plan6 ! partition_index s) = [6]"
    "partition_index s + 1 = length (partitions plan6)"
    by (simp_all add: h(7) plan6_def test_plan_def test_partition_def)
  have R: "delivered 1 1 st \<noteq> 0 \<and> remaining_size s = of_nat (delivered 1 1 st) \<and>
      Hash_Update_ok test_env [1, 2] (take (delivered 1 1 st) (unread st)) \<and>
      Hash_Finalize_ok test_env ([1, 2] @ take (delivered 1 1 st) (unread st)) \<and>
      raw_hash test_env
        (take (unat (target_size (partitions plan6 ! partition_index s))) ([1, 2] @ unread st))
        = target_hash (partitions plan6 ! partition_index s)"
    unfolding z p using e h(6) by simp
  note T6 = target_hash_decides [OF s_def h(1) h(2) h(3) h(4) refl refl h(5) refl refl refl refl]
  from T6 R
  have A: "partition_index s < partition_index (dispatch test_env (ReadDone 1) s)"
    by blast
  from T6 R p(3)
  have C: "completions (dispatch test_env (ReadDone 1) s) = [kSuccess]"
    and O: "output_object (dispatch test_env (ReadDone 1) s) =
      (if has_output_pipe s then Some plan6 else output_object s)"
    by blast+
  from O h(8) have O': "output_object (dispatch test_env (ReadDone 1) s) = Some plan6"
    by simp
  from C have "kSuccess \<in> set (completions (dispatch test_env (ReadDone 1) s))" by simp
  with T6 have D: "list_all (target_hash_matches test_env plan6) (partitions plan6)"
    by blast
  define plan9 where "plan9 = test_plan [test_partition ''root'' 3 [9]]"
  define t where "t = run_verifier test_env kVerifyTargetHash (Some plan9) True [ReadDone 2]"
  have g: "\<not> aborted t" "pending_read t = Some 1" "src_stream t = Some st"
    "hasher t = Some [1, 2]" "\<not> aborted (dispatch test_env (ReadDone 1) t)"
    "remaining_size t = 1" "partition_index t = 0"
    by (simp_all add: t_def plan9_def st_def verifier_run_simps)
  have q: "target_size (partitions plan9 ! partition_index t) = 3"
    "target_hash (partitions plan9 ! partition_index t) = [9]"
    by (simp_all add: g(7) plan9_def test_plan_def test_partition_def)
  have Q: "delivered 1 1 st \<noteq> 0 \<and> remaining_size t = of_nat (delivered 1 1 st) \<and>
      Hash_Update_ok test_env [1, 2] (take (delivered 1 1 st) (unread st)) \<and>
      Hash_Finalize_ok test_env ([1, 2] @ take (delivered 1 1 st) (unread st))"
    unfolding z using e g(6) by simp
  have N: "raw_hash test_env
        (take (unat (target_size (partitions plan9 ! partition_index t))) ([1, 2] @ unread st))
        \<noteq> target_hash (partitions plan9 ! partition_index t)"
    unfolding q using e by simp
  from target_hash_decides [OF t_def g(1) g(2) g(3) g(4) refl refl g(5) refl refl refl refl] Q N
  have B: "completions (dispatch test_env (ReadDone 1) t) = [kNewRootfsVerificationError]"
    by blast
  define plan2 where
    "plan2 = test_plan [test_partition ''root'' 3 [6], test_partition ''kernel'' 1 [7]]"
  define w where "w = run_verifier test_env kVerifyTargetHash (Some plan2) True [ReadDone 2]"
  have f: "\<not> aborted w" "pending_read w = Some 1" "src_stream w = Some st"
    "hasher w = Some [1, 2]" "\<not> aborted (dispatch test_env (ReadDone 1) w)"
    "remaining_size w = 1" "partition_index w = 0"
    by (simp_all add: w_def plan2_def st_def verifier_run_simps)
  have p2: "target_size (partitions plan2 ! partition_index w) = 3"
    "target_hash (partitions plan2 ! partition_index w) = [6]"
    by (simp_all add: f(7) plan2_def test_plan_def test_partition_def)
  have R2: "delivered 1 1 st \<noteq> 0 \<and> remaining_size w = of_nat (delivered 1 1 st) \<and>
      Hash_Update_ok test_env [1, 2] (take (delivered 1 1 st) (unread st)) \<and>
      Hash_Finalize_ok test_env ([1, 2] @ take (delivered 1 1 st) (unread st)) \<and>
      raw_hash test_env
        (take (unat (target_size (partitions plan2 ! partition_index w))) ([1, 2] @ unread st))
        = target_hash (partitions plan2 ! partition_index w)"
    unfolding z p2 using e f(6) by simp
  have n2: "partition_index w + 1 < length (partitions plan2) \<and>
      device_of test_env kVerifyTargetHash plan2 (partitions plan2 ! (partition_index w + 1))
        \<noteq> [] \<and>
      FileStream_Open test_env
        (device_of test_env kVerifyTargetHash plan2 (partitions plan2 ! (partition_index w + 1)))
        = Some [7] \<and>
      target_size (partitions plan2 ! (partition_index w + 1)) \<noteq> 0 \<and>
      ReadAsync_ok test_env
        \<lparr>stream_path = device_of test_env kVerifyTargetHash plan2
           (partitions plan2 ! (partition_index w + 1)), unread = [7], is_open = True\<rparr>"
    by (simp add: f(7) plan2_def test_plan_def test_partition_def device_of_def test_env_def)
  note T2 = target_hash_decides [OF w_def f(1) f(2) f(3) f(4) refl refl f(5) refl refl refl refl,
      where data = "[7]"]
  from T2 R2 n2
  have E: "completions (dispatch test_env (ReadDone 1) w) = []"
    "partition_index (dispatch test_env (ReadDone 1) w) = partition_index w + 1"
    "pending_read (dispatch test_env (ReadDone 1) w) \<noteq> None"
    by blast+
  from E(2) f(7) have E2: "partition_index (dispatch test_env (ReadDone 1) w) = 1" by simp
  from A B C O' D E(1) E2 E(3) show ?thesis
    unfolding s_def t_def w_def plan6_def plan9_def plan2_def by blast
qed

lemma sint_scast_mult_32_64:
  fixes a b :: "32 word"
  shows "sint ((scast a :: 64 word) * scast b) = sint a * sint b"
proof -
  have up: "sint (scast a :: 64 word) = sint a" "sint (scast b :: 64 word) = sint b"
    by (simp_all add: sint_up_scast is_up)
  have a: "\<bar>sint a\<bar> \<le> 2 ^ 31" using sint_ge [of a] sint_lt [of a] by simp
  have b: "\<bar>sint b\<bar> \<le> 2 ^ 31" using sint_ge [of b] sint_lt [of b] by simp
  have "\<bar>sint a * sint b\<bar> \<le> 2 ^ 31 * 2 ^ 31"
    unfolding abs_mult using a b by (intro mult_mono) simp_all
  then have "- (2 ^ 63) \<le> sint a * sint b" "sint a * sint b < 2 ^ 63"
    by simp_all
  then have "signed_take_bit 63 (sint a * sint b) = sint a * sint b"
    by (simp add: signed_take_bit_int_eq_self)
  then show ?thesis by (simp add: sint_word_mult up)
qed

text \<open>
  Claim C7. For a delta update whose partition list is empty, in the mode that computes
  the source hashes, with both legacy devices resolved, the probe of the root device
  reporting \<open>block_count\<close> and \<open>block_size\<close> and the length of the kernel device
  read: \<open>PerformAction\<close> starts hashing on a plan that holds exactly two partitions,
  "root" and then "kernel", all their other fields as a default partition has them; the
  \<open>source_size\<close> of "root" is the product of \<open>block_count\<close> and \<open>block_size\<close> (the
  64-bit product is the product of the two integers, never wrapped) and the
  \<open>source_size\<close> of "kernel" is the length of the device.
\<close>

theorem legacy_partitions_synthesized:
  assumes delta: "\<not> is_full_update plan"
    and empty: "partitions plan = []"
    and root_dev: "GetPartitionDevice env kLegacyPartitionNameRoot (source_slot plan) = Some root_path"
    and probe: "GetFilesystemSize env root_path = Some (block_count, block_size)"
    and kernel_dev:
      "GetPartitionDevice env kLegacyPartitionNameKernel (source_slot plan) = Some kernel_path"
    and kernel_len: "0 \<le> sint (FileSize env kernel_path)"
    and s0: "s0 = FilesystemVerifierAction_new kComputeSourceHash (Some plan) pipe"
    and root: "root_part = Partition_default
        \<lparr>name := ''root'', source_size := scast block_count * scast block_size\<rparr>"
    and kernel: "kernel_part = Partition_default
        \<lparr>name := ''kernel'', source_size := FileSize env kernel_path\<rparr>"
  shows "PerformAction env s0 =
      StartPartitionHashing env (s0\<lparr>install_plan := plan\<lparr>partitions := [root_part, kernel_part]\<rparr>\<rparr>)
    \<and> sint (source_size root_part) = sint block_count * sint block_size
    \<and> (0 \<le> sint block_count * sint block_size \<longrightarrow>
         uint (source_size root_part) = sint block_count * sint block_size)
    \<and> uint (source_size kernel_part) = sint (FileSize env kernel_path)"
proof -
  have l: "PerformAction_legacy env (s0\<lparr>install_plan := plan\<rparr>) =
      Inr (s0\<lparr>install_plan := plan\<lparr>partitions := [root_part, kernel_part]\<rparr>\<rparr>)"
    using delta empty root_dev probe kernel_dev kernel_len
    by (simp add: PerformAction_legacy_def Let_def push_back_def s0 root kernel
        FilesystemVerifierAction_new_def kLegacyPartitionNameRoot_def
        kLegacyPartitionNameKernel_def)
  have A: "PerformAction env s0 =
      StartPartitionHashing env (s0\<lparr>install_plan := plan\<lparr>partitions := [root_part, kernel_part]\<rparr>\<rparr>)"
  proof -
    have i: "input_object s0 = Some plan"
      by (simp add: s0 FilesystemVerifierAction_new_def)
    show ?thesis
      unfolding PerformAction_def by (simp add: i l)
  qed
  have B: "sint (source_size root_part) = sint block_count * sint block_size"
    by (simp add: root sint_scast_mult_32_64)
  have C: "0 \<le> sint block_count * sint block_size \<longrightarrow>
         uint (source_size root_part) = sint block_count * sint block_size"
    using B sint_nonneg_uint [of "source_size root_part"] by simp
  have D: "uint (source_size kernel_part) = sint (FileSize env kernel_path)"
    using kernel_len by (simp add: kernel sint_nonneg_uint)
  from A B C D show ?thesis by blast
qed

theorem legacy_partitions_synthesized_witness:
  "map name (partitions (install_plan (PerformAction test_env
      (FilesystemVerifierAction_new kComputeSourceHash (Some (test_plan [])) True))))
     = [''root'', ''kernel'']
   \<and> map source_size (partitions (install_plan (PerformAction test_env
      (FilesystemVerifierAction_new kComputeSourceHash (Some (test_plan [])) True))))
     = [8192, 1]
   \<and> pending_read (PerformAction test_env
      (FilesystemVerifierAction_new kComputeSourceHash (Some (test_plan [])) True)) = Some 8192"
proof -
  have h: "\<not> is_full_update (test_plan [])" "partitions (test_plan []) = []"
    "GetPartitionDevice test_env kLegacyPartitionNameRoot (source_slot (test_plan []))
       = Some ''/dev/root''"
    "GetFilesystemSize test_env ''/dev/root'' = Some (2, 4096)"
    "GetPartitionDevice test_env kLegacyPartitionNameKernel (source_slot (test_plan []))
       = Some ''/dev/kernel''"
    "0 \<le> sint (FileSize test_env ''/dev/kernel'')"
    by (simp_all add: test_plan_def test_env_def kLegacyPartitionNameRoot_def
        kLegacyPartitionNameKernel_def)
  note T = legacy_partitions_synthesized [OF h refl refl refl, of True]
  from T have e: "PerformAction test_env
      (FilesystemVerifierAction_new kComputeSourceHash (Some (test_plan [])) True) =
      StartPartitionHashing test_env
        (FilesystemVerifierAction_new kComputeSourceHash (Some (test_plan [])) True
          \<lparr>install_plan := (test_plan [])\<lparr>partitions :=
             [Partition_default\<lparr>name := ''root'', source_size := scast (2 :: int32) * scast (4096 :: int32)\<rparr>,
              Partition_default\<lparr>name := ''kernel'',
                 source_size := FileSize test_env ''/dev/kernel''\<rparr>]\<rparr>\<rparr>)"
    by (rule conjunct1)
  show ?thesis
    unfolding e
    by (simp add: FilesystemVerifierAction_new_def test_plan_def
      Partition_default_def StartPartitionHashing.simps ScheduleRead.simps
      Let_def test_env_def bytes_to_read_def std_min_def kReadFileBufferSize_def)
qed





lemmas download_run_simps =
  run_download_def callbacks_def deliver_def DownloadAction_PerformAction_def
  DownloadAction_new_def test_download_def test_sys_def test_plan_def
  ReceivedBytes_def ReceivedBytes_promote_def WriteToP2PFile_def SetupP2PSharingFd_def
  CloseP2PSharingFd_def FileSize_fd_def lseek_def write_at_def FileShare_def
  FileMakeVisible_def unlink_def TransferComplete_def TransferTerminated_def
  DownloadAction_TerminateProcessing_def SeekToOffset_def ActionComplete_def
  SetOutputObject_def Let_def

section \<open>Properties of download\_action.cc\<close>

text \<open>
  The claim as it was written has \<open>VerifyPayload\<close> invoked on every successful
  transfer. An action that runs with a writer injected for a test has no
  \<open>DeltaPerformer\<close>: its successful transfer completes with \<open>kSuccess\<close> and no
  verification is invoked, whatever the verification would have answered.
\<close>

theorem injected_writer_counterexample:
  "verify_calls (run_download test_sys (test_download (Some TestWriter))
      [Received test_sys [1, 2],
       Complete (test_sys\<lparr>VerifyPayload_result := kPayloadHashMismatchError\<rparr>) True]) = []
   \<and> completions (run_download test_sys (test_download (Some TestWriter))
      [Received test_sys [1, 2],
       Complete (test_sys\<lparr>VerifyPayload_result := kPayloadHashMismatchError\<rparr>) True])
     = [kSuccess]"
  by (simp add: download_run_simps)

text \<open>
  Claim C5, as amended. \<open>TransferComplete\<close> delivers one completion. Its code is
  \<open>kDownloadTransferError\<close> when the transfer was unsuccessful; when it was successful
  and the action runs its own \<open>DeltaPerformer\<close>, \<open>VerifyPayload\<close> is invoked once, on
  the plan's \<open>payload_hash\<close> and \<open>payload_size\<close>, and its return code is the code; when
  it was successful and a writer was injected, nothing is verified and the code is
  \<open>kSuccess\<close>. After a verification that failed, a share file in use is deleted and
  closed and sharing is off. The plan is put into the output pipe exactly when the code
  is \<open>kSuccess\<close> and there is a pipe.
\<close>

theorem transfer_complete_code:
  assumes s': "s' = TransferComplete sys successful s"
    and final: "final =
      (if \<not> successful then kDownloadTransferError
       else if delta_performer s then VerifyPayload_result sys
       else kSuccess)"
  shows "completions s' = completions s @ [final]
    \<and> verify_calls s' = verify_calls s @
         (if successful \<and> delta_performer s
          then [(payload_hash (da_install_plan s), payload_size (da_install_plan s))] else [])
    \<and> (successful \<and> delta_performer s \<and> VerifyPayload_result sys \<noteq> kSuccess \<and>
          p2p_file_id s \<noteq> [] \<longrightarrow>
          p2p_dir s' (p2p_file_id s) = None \<and> p2p_sharing_fd s' = - 1 \<and> p2p_file_id s' = [])
    \<and> output_object s' =
         (if final = kSuccess \<and> has_output_pipe s then Some (da_install_plan s)
          else output_object s)"
  unfolding s' final
  by (cases "writer s")
     (simp_all add: TransferComplete_def Let_def ActionComplete_def SetOutputObject_def
       CloseP2PSharingFd_def unlink_def)

theorem transfer_complete_code_witness:
  "completions (TransferComplete (test_sys\<lparr>VerifyPayload_result := kPayloadHashMismatchError\<rparr>)
      True (run_download test_sys (test_download None) [Received test_sys [1, 2]]))
     = [kPayloadHashMismatchError]
   \<and> p2p_dir (run_download test_sys (test_download None) [Received test_sys [1, 2]])
        ''cros_update_hash'' \<noteq> None
   \<and> p2p_dir (TransferComplete (test_sys\<lparr>VerifyPayload_result := kPayloadHashMismatchError\<rparr>)
      True (run_download test_sys (test_download None) [Received test_sys [1, 2]]))
        ''cros_update_hash'' = None"
proof -
  define s where "s = run_download test_sys (test_download None) [Received test_sys [1, 2]]"
  define sys where "sys = test_sys\<lparr>VerifyPayload_result := kPayloadHashMismatchError\<rparr>"
  have h: "delta_performer s" "VerifyPayload_result sys \<noteq> kSuccess"
    "p2p_file_id s = ''cros_update_hash''" "completions s = []"
    "p2p_dir s ''cros_update_hash'' \<noteq> None"
    "VerifyPayload_result sys = kPayloadHashMismatchError"
    by (simp_all add: s_def sys_def download_run_simps)
  note T = transfer_complete_code [OF refl refl, of sys True s]
  from T h(1) h(4) h(6)
  have A: "completions (TransferComplete sys True s) = [kPayloadHashMismatchError]"
    by simp
  from T h(1) h(2) h(3)
  have B: "p2p_dir (TransferComplete sys True s) ''cros_update_hash'' = None"
    by simp
  from A h(5) B show ?thesis unfolding s_def sys_def by blast
qed

lemma sharing_only_refl [simp]: "sharing_only s s"
  by (simp add: sharing_only_def)

lemma sharing_only_trans: "sharing_only s s1 \<Longrightarrow> sharing_only s1 s2 \<Longrightarrow> sharing_only s s2"
  by (simp add: sharing_only_def)

lemma sharing_only_Close [simp]: "sharing_only s (CloseP2PSharingFd del s)"
  by (simp add: sharing_only_def CloseP2PSharingFd_def Let_def)

lemma sharing_only_Setup: "sharing_only s (snd (SetupP2PSharingFd sys s))"
proof -
  define s1 where "s1 = s\<lparr>p2p_dir :=
       FileShare (p2p_file_id s) (payload_size (da_install_plan s)) (p2p_dir s)\<rparr>"
  define s2 where "s2 = s1\<lparr>p2p_sharing_fd := open_fd sys, p2p_fd_pos := 0\<rparr>"
  have a: "sharing_only s s2" by (simp add: sharing_only_def s2_def s1_def)
  have b: "sharing_only s (CloseP2PSharingFd True s2)"
    by (rule sharing_only_trans [OF a sharing_only_Close])
  have c: "sharing_only s (case p2p_dir s2 (p2p_file_id s2) of
                  None \<Rightarrow> s2
                | Some f \<Rightarrow> s2\<lparr>p2p_visible := file_visible f\<rparr>)"
    using a by (cases "p2p_dir s2 (p2p_file_id s2)") (simp_all add: sharing_only_def)
  show ?thesis
    unfolding SetupP2PSharingFd_def Let_def s1_def [symmetric] s2_def [symmetric]
    using b c by simp
qed


lemma CloseP2PSharingFd_fields [simp]:
  "p2p_file_id (CloseP2PSharingFd del s) = []"
  "p2p_sharing_fd (CloseP2PSharingFd del s) = - 1"
  "p2p_dir (CloseP2PSharingFd del s) =
     (if del then unlink (p2p_file_id s) (p2p_dir s) else p2p_dir s)"
  "p2p_visible (CloseP2PSharingFd del s) = p2p_visible s"
  "p2p_writes (CloseP2PSharingFd del s) = p2p_writes s"
  by (simp_all add: CloseP2PSharingFd_def Let_def)

lemma SetupP2PSharingFd_result:
  assumes "SetupP2PSharingFd sys s = (ok, s1)"
  shows "if ok then p2p_file_id s1 = p2p_file_id s \<and> p2p_sharing_fd s1 \<noteq> - 1 \<and>
           p2p_writes s1 = p2p_writes s \<and>
           p2p_dir s1 = FileShare (p2p_file_id s) (payload_size (da_install_plan s)) (p2p_dir s)
         else p2p_file_id s1 = [] \<and> p2p_sharing_fd s1 = - 1 \<and> p2p_writes s1 = p2p_writes s \<and>
           p2p_dir s1 (p2p_file_id s) = None \<and> p2p_visible s1 = p2p_visible s"
proof -
  define s2 where "s2 = s\<lparr>p2p_dir :=
       FileShare (p2p_file_id s) (payload_size (da_install_plan s)) (p2p_dir s),
       p2p_sharing_fd := open_fd sys, p2p_fd_pos := 0\<rparr>"
  have u: "SetupP2PSharingFd sys s =
     (if \<not> FileShare_ok sys then (False, CloseP2PSharingFd True s)
      else if open_fd sys = - 1 then (False, CloseP2PSharingFd True s2)
      else if \<not> fchmod_ok sys then (False, CloseP2PSharingFd True s2)
      else (True, (case p2p_dir s2 (p2p_file_id s2) of
                  None \<Rightarrow> s2
                | Some f \<Rightarrow> s2\<lparr>p2p_visible := file_visible f\<rparr>)))"
    by (simp add: SetupP2PSharingFd_def Let_def s2_def split: option.splits)
  have f2: "p2p_file_id s2 = p2p_file_id s" "p2p_visible s2 = p2p_visible s"
    "p2p_writes s2 = p2p_writes s" "p2p_sharing_fd s2 = open_fd sys"
    "p2p_dir s2 = FileShare (p2p_file_id s) (payload_size (da_install_plan s)) (p2p_dir s)"
    by (simp_all add: s2_def)
  show ?thesis
  proof (cases "p2p_dir s2 (p2p_file_id s2)")
    case None
    then show ?thesis
      using assms f2 unfolding u by (auto simp: unlink_def split: if_splits)
  next
    case (Some f)
    then show ?thesis
      using assms f2 unfolding u by (auto simp: unlink_def split: if_splits)
  qed
qed

text \<open>
  \<open>WriteToP2PFile\<close> either keeps sharing on, with the descriptor open, or ends it:
  the file is then gone, the descriptor closed and the file id empty, and nothing was
  written.
\<close>

lemma WriteToP2PFile_result:
  assumes "p2p_file_id s = f"
  shows "sharing_only s (WriteToP2PFile sys data off s) \<and>
    ((p2p_file_id (WriteToP2PFile sys data off s) = f \<and>
      p2p_sharing_fd (WriteToP2PFile sys data off s) \<noteq> - 1) \<or>
     (p2p_file_id (WriteToP2PFile sys data off s) = [] \<and>
      p2p_sharing_fd (WriteToP2PFile sys data off s) = - 1 \<and>
      p2p_dir (WriteToP2PFile sys data off s) f = None \<and>
      p2p_writes (WriteToP2PFile sys data off s) = p2p_writes s))"
proof -
  define r where "r = (if p2p_sharing_fd s = - 1 then SetupP2PSharingFd sys s else (True, s))"
  obtain ok s1 where r: "r = (ok, s1)" by (cases r)
  have so1: "sharing_only s s1"
    using r sharing_only_Setup [of s sys] by (auto simp: r_def split: if_splits)
  have res: "if ok then p2p_file_id s1 = f \<and> p2p_sharing_fd s1 \<noteq> - 1 \<and> p2p_writes s1 = p2p_writes s
         else p2p_file_id s1 = [] \<and> p2p_sharing_fd s1 = - 1 \<and> p2p_writes s1 = p2p_writes s \<and>
           p2p_dir s1 f = None"
  proof (cases "p2p_sharing_fd s = - 1")
    case True
    then have "SetupP2PSharingFd sys s = (ok, s1)" using r by (simp add: r_def)
    from SetupP2PSharingFd_result [OF this] assms show ?thesis by (auto split: if_splits)
  next
    case False
    then show ?thesis using r assms by (auto simp: r_def)
  qed
  show ?thesis
  proof (cases ok)
    case False
    then have "WriteToP2PFile sys data off s = s1"
      using r by (simp add: WriteToP2PFile_def r_def [symmetric])
    then show ?thesis using so1 res False by simp
  next
    case True
    define s2 where "s2 = (if 0 \<le> lseek sys (sint off)
                           then s1\<lparr>p2p_fd_pos := nat (lseek sys (sint off))\<rparr> else s1)"
    have f2: "p2p_file_id s2 = f" "p2p_sharing_fd s2 \<noteq> - 1" "p2p_writes s2 = p2p_writes s"
      "p2p_dir s2 = p2p_dir s1" "sharing_only s1 s2"
      using res True by (simp_all add: s2_def sharing_only_def)
    have cl: "\<And>t. p2p_file_id t = f \<Longrightarrow> p2p_writes t = p2p_writes s \<Longrightarrow> sharing_only s1 t \<Longrightarrow>
       sharing_only s (CloseP2PSharingFd True t) \<and>
       p2p_file_id (CloseP2PSharingFd True t) = [] \<and>
       p2p_sharing_fd (CloseP2PSharingFd True t) = - 1 \<and>
       p2p_dir (CloseP2PSharingFd True t) f = None \<and>
       p2p_writes (CloseP2PSharingFd True t) = p2p_writes s"
      using so1
      by (simp add: CloseP2PSharingFd_def Let_def unlink_def sharing_only_def)
    have u: "WriteToP2PFile sys data off s =
       (if FileSize_fd sys s1 < 0 then CloseP2PSharingFd True s1
           else if FileSize_fd sys s1 < sint off then CloseP2PSharingFd True s1
           else if lseek sys (sint off) \<noteq> sint off then CloseP2PSharingFd True s1
           else if \<not> write_ok sys then CloseP2PSharingFd True s2
           else
                      (case p2p_dir s2 (p2p_file_id s2) of
                         None \<Rightarrow> s2
                       | Some fl \<Rightarrow>
                           s2\<lparr>p2p_dir := (p2p_dir s2)(p2p_file_id s2 \<mapsto>
                                  fl\<lparr>file_data := write_at (p2p_fd_pos s2) data (file_data fl)\<rparr>),
                              p2p_fd_pos := p2p_fd_pos s2 + length data,
                              p2p_writes := p2p_writes s2 @ [(p2p_fd_pos s2, data)]\<rparr>))"
      using r True
      by (simp add: WriteToP2PFile_def r_def [symmetric] Let_def s2_def split: option.splits)
    have c1: "p2p_file_id s1 = f" "p2p_writes s1 = p2p_writes s" using res True by simp_all
    have last: "sharing_only s (case p2p_dir s2 (p2p_file_id s2) of
                         None \<Rightarrow> s2
                       | Some fl \<Rightarrow>
                           s2\<lparr>p2p_dir := (p2p_dir s2)(p2p_file_id s2 \<mapsto>
                                  fl\<lparr>file_data := write_at (p2p_fd_pos s2) data (file_data fl)\<rparr>),
                              p2p_fd_pos := p2p_fd_pos s2 + length data,
                              p2p_writes := p2p_writes s2 @ [(p2p_fd_pos s2, data)]\<rparr>)"
      "p2p_file_id (case p2p_dir s2 (p2p_file_id s2) of
                         None \<Rightarrow> s2
                       | Some fl \<Rightarrow>
                           s2\<lparr>p2p_dir := (p2p_dir s2)(p2p_file_id s2 \<mapsto>
                                  fl\<lparr>file_data := write_at (p2p_fd_pos s2) data (file_data fl)\<rparr>),
                              p2p_fd_pos := p2p_fd_pos s2 + length data,
                              p2p_writes := p2p_writes s2 @ [(p2p_fd_pos s2, data)]\<rparr>) = f"
      "p2p_sharing_fd (case p2p_dir s2 (p2p_file_id s2) of
                         None \<Rightarrow> s2
                       | Some fl \<Rightarrow>
                           s2\<lparr>p2p_dir := (p2p_dir s2)(p2p_file_id s2 \<mapsto>
                                  fl\<lparr>file_data := write_at (p2p_fd_pos s2) data (file_data fl)\<rparr>),
                              p2p_fd_pos := p2p_fd_pos s2 + length data,
                              p2p_writes := p2p_writes s2 @ [(p2p_fd_pos s2, data)]\<rparr>) \<noteq> - 1"
      using so1 f2 by (cases "p2p_dir s2 (p2p_file_id s2)"; simp add: sharing_only_def)+
    show ?thesis
      unfolding u
      using cl [OF c1 sharing_only_refl] cl [OF f2(1) f2(3) f2(5)] last
      by (simp split: if_splits)
  qed
qed

text \<open>
  Claim C2. When \<open>writer_->Write\<close> returns false during \<open>ReceivedBytes\<close>, storing the
  code \<open>e\<close>: \<open>code_\<close> is \<open>e\<close>; the block was given to the writer; a share file in use
  is deleted, the descriptor is closed and sharing is off; \<open>TerminateProcessing\<close> ran
  (the writer is closed and dropped, the transfer is asked to terminate); no completion
  was delivered and the file was not made visible; and \<open>TransferTerminated\<close> then
  delivers \<open>e\<close> as the one new completion, provided \<open>e\<close> is an error code.
\<close>

theorem write_failure_latched:
  assumes w: "writer s = Some w"
    and fail: "Write_result sys = (False, e)"
    and s': "s' = ReceivedBytes sys bytes s"
  shows "code s' = e
    \<and> completions s' = completions s
    \<and> written s' = written s @ [bytes]
    \<and> (p2p_file_id s \<noteq> [] \<longrightarrow> p2p_dir s' (p2p_file_id s) = None)
    \<and> p2p_sharing_fd s' = - 1 \<and> p2p_file_id s' = []
    \<and> writer s' = None \<and> writer_closed s' = writer_closed s + 1
    \<and> terminate_requests s' = terminate_requests s + 1
    \<and> make_visible_calls s' = make_visible_calls s
    \<and> completions (TransferTerminated s') =
        (if e = kSuccess then completions s else completions s @ [e])"
proof -
  define s1 where "s1 = (if p2p_file_id s \<noteq> [] then WriteToP2PFile sys bytes (bytes_received s) s
                else s)"
  have so: "sharing_only s s1"
    using WriteToP2PFile_result [OF refl, of s sys bytes "bytes_received s"]
    by (simp add: s1_def)
  have id: "p2p_file_id s \<noteq> [] \<longrightarrow>
      p2p_file_id s1 = p2p_file_id s \<or> (p2p_file_id s1 = [] \<and> p2p_dir s1 (p2p_file_id s) = None)"
    using WriteToP2PFile_result [OF refl, of s sys bytes "bytes_received s"]
    by (auto simp: s1_def)
  have id0: "p2p_file_id s = [] \<longrightarrow> p2p_file_id s1 = []" by (simp add: s1_def)
  define s3 where "s3 = (if delegate s1
       then s1\<lparr>bytes_received := bytes_received s1 + of_nat (length bytes),
               progress := progress s1 @ [(bytes_received s1 + of_nat (length bytes),
                  payload_size (da_install_plan s1))]\<rparr>
       else s1\<lparr>bytes_received := bytes_received s1 + of_nat (length bytes)\<rparr>)"
  define s4 where "s4 = s3\<lparr>written := written s3 @ [bytes], code := e\<rparr>"
  define s5 where "s5 = (if p2p_file_id s4 \<noteq> [] then CloseP2PSharingFd True s4 else s4)"
  have w3: "writer s3 = Some w" using so w by (simp add: s3_def sharing_only_def)
  have e: "s' = DownloadAction_TerminateProcessing s5"
    unfolding s' ReceivedBytes_def Let_def s1_def [symmetric]
    using w3 fail by (simp add: s3_def s4_def s5_def split: if_splits)
  have f4: "code s4 = e" "completions s4 = completions s" "written s4 = written s @ [bytes]"
    "writer s4 = Some w" "writer_closed s4 = writer_closed s"
    "terminate_requests s4 = terminate_requests s" "make_visible_calls s4 = make_visible_calls s"
    "p2p_file_id s4 = p2p_file_id s1" "p2p_dir s4 = p2p_dir s1"
    using so w by (simp_all add: s4_def s3_def sharing_only_def)
  have f5: "code s5 = e" "completions s5 = completions s" "written s5 = written s @ [bytes]"
    "writer s5 = Some w" "writer_closed s5 = writer_closed s"
    "terminate_requests s5 = terminate_requests s" "make_visible_calls s5 = make_visible_calls s"
    using f4 by (simp_all add: s5_def CloseP2PSharingFd_def Let_def)
  have d5: "p2p_file_id s \<noteq> [] \<longrightarrow> p2p_dir s5 (p2p_file_id s) = None"
    using id f4(8,9) by (auto simp: s5_def unlink_def)
  have g: "code s' = e" "completions s' = completions s" "written s' = written s @ [bytes]"
    "writer s' = None" "writer_closed s' = writer_closed s + 1"
    "terminate_requests s' = terminate_requests s + 1"
    "make_visible_calls s' = make_visible_calls s"
    "p2p_sharing_fd s' = - 1" "p2p_file_id s' = []" "p2p_dir s' = p2p_dir s5"
    using f5 by (simp_all add: e DownloadAction_TerminateProcessing_def Let_def
        CloseP2PSharingFd_def)
  have t: "completions (TransferTerminated s') =
        (if e = kSuccess then completions s else completions s @ [e])"
    using g(1,2) by (simp add: TransferTerminated_def ActionComplete_def)
  show ?thesis using g d5 t by simp
qed

theorem write_failure_latched_witness:
  "p2p_dir (run_download test_sys (test_download None) [Received test_sys [1, 2]])
      ''cros_update_hash'' \<noteq> None
   \<and> completions (ReceivedBytes (test_sys\<lparr>Write_result := (False, kDownloadWriteError)\<rparr>) [3]
       (run_download test_sys (test_download None) [Received test_sys [1, 2]])) = []
   \<and> p2p_dir (ReceivedBytes (test_sys\<lparr>Write_result := (False, kDownloadWriteError)\<rparr>) [3]
       (run_download test_sys (test_download None) [Received test_sys [1, 2]]))
        ''cros_update_hash'' = None
   \<and> completions (TransferTerminated
       (ReceivedBytes (test_sys\<lparr>Write_result := (False, kDownloadWriteError)\<rparr>) [3]
         (run_download test_sys (test_download None) [Received test_sys [1, 2]])))
       = [kDownloadWriteError]"
proof -
  define s where "s = run_download test_sys (test_download None) [Received test_sys [1, 2]]"
  define sys where "sys = test_sys\<lparr>Write_result := (False, kDownloadWriteError)\<rparr>"
  have h: "writer s = Some DeltaPerformerWriter" "Write_result sys = (False, kDownloadWriteError)"
    "p2p_file_id s = ''cros_update_hash''" "completions s = []"
    "p2p_dir s ''cros_update_hash'' \<noteq> None"
    by (simp_all add: s_def sys_def download_run_simps)
  note T = write_failure_latched [OF h(1) h(2) refl, of "[3]"]
  from T h(3) h(4)
  have "completions (ReceivedBytes sys [3] s) = []"
    "p2p_dir (ReceivedBytes sys [3] s) ''cros_update_hash'' = None"
    "completions (TransferTerminated (ReceivedBytes sys [3] s)) = [kDownloadWriteError]"
    by simp_all
  with h(5) show ?thesis unfolding s_def sys_def by blast
qed

lemma WriteToP2PFile_short:
  assumes id: "p2p_file_id s = f"
    and ready: "p2p_sharing_fd s \<noteq> - 1 \<or> (FileShare_ok sys \<and> open_fd sys \<noteq> - 1 \<and> fchmod_ok sys)"
    and share: "(if p2p_sharing_fd s = - 1
                 then FileShare f (payload_size (da_install_plan s)) (p2p_dir s)
                 else p2p_dir s) f = Some fl"
    and size: "FileSize_ok sys"
    and short: "int (length (file_data fl)) < sint off"
  shows "p2p_file_id (WriteToP2PFile sys data off s) = [] \<and>
      p2p_sharing_fd (WriteToP2PFile sys data off s) = - 1 \<and>
      p2p_dir (WriteToP2PFile sys data off s) f = None \<and>
      p2p_writes (WriteToP2PFile sys data off s) = p2p_writes s"
proof -
  define r where "r = (if p2p_sharing_fd s = - 1 then SetupP2PSharingFd sys s else (True, s))"
  obtain ok s1 where r: "r = (ok, s1)" by (cases r)
  have s1: "ok \<and> p2p_file_id s1 = f \<and> p2p_dir s1 f = Some fl \<and> p2p_writes s1 = p2p_writes s"
  proof (cases "p2p_sharing_fd s = - 1")
    case False
    then show ?thesis using r share id by (auto simp: r_def)
  next
    case True
    then have su: "SetupP2PSharingFd sys s = (ok, s1)" using r by (simp add: r_def)
    have "ok" using su ready True by (auto simp: SetupP2PSharingFd_def Let_def split: if_splits)
    with SetupP2PSharingFd_result [OF su] share True id show ?thesis by simp
  qed
  have fs: "FileSize_fd sys s1 = int (length (file_data fl))"
    using s1 size by (simp add: FileSize_fd_def)
  have "WriteToP2PFile sys data off s = CloseP2PSharingFd True s1"
    using r s1 fs short by (simp add: WriteToP2PFile_def r_def [symmetric] Let_def)
  then show ?thesis using s1 by (simp add: unlink_def)
qed

text \<open>Once the file id is empty, sharing stays off: nothing is written or created.\<close>

lemma promote_off:
  assumes "p2p_file_id s = []"
  shows "p2p_file_id (ReceivedBytes_promote sys s) = []"
    "p2p_writes (ReceivedBytes_promote sys s) = p2p_writes s"
    "p2p_dir s f = None \<Longrightarrow> p2p_dir (ReceivedBytes_promote sys s) f = None"
  using assms
  by (auto simp: ReceivedBytes_promote_def FileMakeVisible_def split: option.splits)

lemma Terminate_off:
  "p2p_file_id (DownloadAction_TerminateProcessing s) = []"
  "p2p_writes (DownloadAction_TerminateProcessing s) = p2p_writes s"
  "p2p_dir (DownloadAction_TerminateProcessing s) = p2p_dir s"
  by (cases "writer s"; simp add: DownloadAction_TerminateProcessing_def Let_def)+

lemma sharing_off_deliver:
  assumes "p2p_file_id s = []"
  shows "p2p_file_id (deliver cb s) = [] \<and> p2p_writes (deliver cb s) = p2p_writes s \<and>
     (p2p_dir s f = None \<longrightarrow> p2p_dir (deliver cb s) f = None)"
proof (cases "aborted s")
  case True
  then show ?thesis using assms by (simp add: deliver_def)
next
  case False
  show ?thesis
  proof (cases cb)
    case (Seek x1)
    then show ?thesis using assms False by (simp add: deliver_def SeekToOffset_def)
  next
    case (Received sys bytes)
    define s3 where "s3 = (if delegate s
       then s\<lparr>bytes_received := bytes_received s + of_nat (length bytes),
               progress := progress s @ [(bytes_received s + of_nat (length bytes),
                  payload_size (da_install_plan s))]\<rparr>
       else s\<lparr>bytes_received := bytes_received s + of_nat (length bytes)\<rparr>)"
    have f3: "p2p_file_id s3 = []" "p2p_writes s3 = p2p_writes s" "p2p_dir s3 = p2p_dir s"
      "writer s3 = writer s"
      using assms by (simp_all add: s3_def)
    define s4 where "s4 = s3\<lparr>written := written s3 @ [bytes], code := snd (Write_result sys)\<rparr>"
    have f4: "p2p_file_id s4 = []" "p2p_writes s4 = p2p_writes s" "p2p_dir s4 = p2p_dir s"
      using f3 by (simp_all add: s4_def)
    have u: "ReceivedBytes sys bytes s =
      (case writer s3 of
           None \<Rightarrow> ReceivedBytes_promote sys s3
         | Some w \<Rightarrow>
             if \<not> fst (Write_result sys) then DownloadAction_TerminateProcessing s4
             else ReceivedBytes_promote sys s4)"
      using assms f4
      by (simp add: ReceivedBytes_def Let_def s3_def s4_def split: option.splits)
    show ?thesis
      using False Received f3 f4 promote_off [OF f3(1)] promote_off [OF f4(1)]
        Terminate_off [of s4]
      by (cases "writer s") (simp_all add: deliver_def u)
  next
    case (Complete sys successful)
    then show ?thesis
      using assms False
      by (cases "writer s") (simp_all add: deliver_def TransferComplete_def Let_def
          ActionComplete_def SetOutputObject_def)
  next
    case Terminated
    then show ?thesis
      using assms False by (simp add: deliver_def TransferTerminated_def ActionComplete_def)
  next
    case Stop
    then show ?thesis
      using False Terminate_off [of s] by (simp add: deliver_def)
  qed
qed

lemma sharing_off_callbacks:
  assumes "p2p_file_id s = []"
  shows "p2p_file_id (callbacks cbs s) = [] \<and> p2p_writes (callbacks cbs s) = p2p_writes s \<and>
     (p2p_dir s f = None \<longrightarrow> p2p_dir (callbacks cbs s) f = None)"
  using assms
proof (induction cbs arbitrary: s)
  case Nil
  then show ?case by (simp add: callbacks_def)
next
  case (Cons cb cbs)
  from sharing_off_deliver [OF Cons.prems, of cb f]
  have a: "p2p_file_id (deliver cb s) = []" "p2p_writes (deliver cb s) = p2p_writes s"
    "p2p_dir s f = None \<longrightarrow> p2p_dir (deliver cb s) f = None" by simp_all
  from Cons.IH [OF a(1)] a show ?case by (simp add: callbacks_def)
qed

lemma promote_fields [simp]:
  "completions (ReceivedBytes_promote sys s) = completions s"
  "written (ReceivedBytes_promote sys s) = written s"
  "bytes_received (ReceivedBytes_promote sys s) = bytes_received s"
  "aborted (ReceivedBytes_promote sys s) = aborted s"
  "writer (ReceivedBytes_promote sys s) = writer s"
  "delta_performer (ReceivedBytes_promote sys s) = delta_performer s"
  "code (ReceivedBytes_promote sys s) = code s"
  "p2p_sharing_fd (ReceivedBytes_promote sys s) = p2p_sharing_fd s"
  "p2p_file_id (ReceivedBytes_promote sys s) = p2p_file_id s"
  "p2p_writes (ReceivedBytes_promote sys s) = p2p_writes s"
  by (simp_all add: ReceivedBytes_promote_def)

text \<open>
  Claim C6. When the mirrored write of a \<open>ReceivedBytes\<close> callback finds the share
  file (the descriptor open, or opened by this write) shorter than the offset
  \<open>bytes_received_\<close>: the file is deleted, the descriptor closed and the file id
  cleared, and nothing is written to the file, in this callback or in any sequence of
  callbacks after it, nor is the file created again. The download goes on: the offset
  advances, the block goes to the writer, and when the writer accepts it nothing is
  completed yet and a successful \<open>TransferComplete\<close> whose verification succeeds
  completes the action with \<open>kSuccess\<close>.
\<close>

theorem short_share_file_disables_sharing:
  assumes id: "p2p_file_id s = f" and ne: "f \<noteq> []"
    and alive: "\<not> aborted s"
    and ready: "p2p_sharing_fd s \<noteq> - 1 \<or> (FileShare_ok sys \<and> open_fd sys \<noteq> - 1 \<and> fchmod_ok sys)"
    and share: "(if p2p_sharing_fd s = - 1
                 then FileShare f (payload_size (da_install_plan s)) (p2p_dir s)
                 else p2p_dir s) f = Some fl"
    and size: "FileSize_ok sys"
    and short: "int (length (file_data fl)) < sint (bytes_received s)"
    and s': "s' = deliver (Received sys bytes) s"
  shows "p2p_dir s' f = None \<and> p2p_sharing_fd s' = - 1 \<and> p2p_file_id s' = []
    \<and> p2p_writes s' = p2p_writes s
    \<and> p2p_writes (callbacks cbs s') = p2p_writes s
    \<and> p2p_file_id (callbacks cbs s') = []
    \<and> p2p_dir (callbacks cbs s') f = None
    \<and> bytes_received s' = bytes_received s + of_nat (length bytes)
    \<and> (writer s \<noteq> None \<longrightarrow> written s' = written s @ [bytes])
    \<and> (writer s = None \<or> fst (Write_result sys) \<longrightarrow> completions s' = completions s)
    \<and> ((writer s = None \<or> fst (Write_result sys)) \<and> VerifyPayload_result sys2 = kSuccess \<longrightarrow>
         completions (deliver (Complete sys2 True) s') = completions s @ [kSuccess])"
proof -
  define s1 where "s1 = WriteToP2PFile sys bytes (bytes_received s) s"
  have w: "p2p_file_id s1 = []" "p2p_sharing_fd s1 = - 1" "p2p_dir s1 f = None"
    "p2p_writes s1 = p2p_writes s"
    using WriteToP2PFile_short [OF id ready share size short, of bytes] by (simp_all add: s1_def)
  have so: "sharing_only s s1"
    using WriteToP2PFile_result [OF id, of sys bytes "bytes_received s"] by (simp add: s1_def)
  define s3 where "s3 = (if delegate s1
       then s1\<lparr>bytes_received := bytes_received s1 + of_nat (length bytes),
               progress := progress s1 @ [(bytes_received s1 + of_nat (length bytes),
                  payload_size (da_install_plan s1))]\<rparr>
       else s1\<lparr>bytes_received := bytes_received s1 + of_nat (length bytes)\<rparr>)"
  define s4 where "s4 = s3\<lparr>written := written s3 @ [bytes], code := snd (Write_result sys)\<rparr>"
  have u: "s' =
      (case writer s of
           None \<Rightarrow> ReceivedBytes_promote sys s3
         | Some w \<Rightarrow>
             if \<not> fst (Write_result sys) then DownloadAction_TerminateProcessing s4
             else ReceivedBytes_promote sys s4)"
    using alive id ne w(1) so
    by (simp add: s' deliver_def ReceivedBytes_def Let_def s1_def [symmetric] s3_def s4_def
        sharing_only_def split: option.splits)
  have f3: "p2p_file_id s3 = []" "p2p_sharing_fd s3 = - 1" "p2p_dir s3 f = None"
    "p2p_writes s3 = p2p_writes s" "completions s3 = completions s" "written s3 = written s"
    "bytes_received s3 = bytes_received s + of_nat (length bytes)" "\<not> aborted s3"
    "delta_performer s3 = delta_performer s" "writer s3 = writer s"
    using w so alive by (simp_all add: s3_def sharing_only_def)
  have f4: "p2p_file_id s4 = []" "p2p_sharing_fd s4 = - 1" "p2p_dir s4 f = None"
    "p2p_writes s4 = p2p_writes s" "completions s4 = completions s"
    "written s4 = written s @ [bytes]"
    "bytes_received s4 = bytes_received s + of_nat (length bytes)" "\<not> aborted s4"
    "delta_performer s4 = delta_performer s" "writer s4 = writer s"
    using f3 by (simp_all add: s4_def)
  have t4: "p2p_sharing_fd (DownloadAction_TerminateProcessing s4) = - 1"
    "bytes_received (DownloadAction_TerminateProcessing s4) = bytes_received s4"
    "written (DownloadAction_TerminateProcessing s4) = written s4"
    by (cases "writer s4"; simp add: DownloadAction_TerminateProcessing_def Let_def
        CloseP2PSharingFd_def)+
  have A: "p2p_dir s' f = None \<and> p2p_sharing_fd s' = - 1 \<and> p2p_file_id s' = []
    \<and> p2p_writes s' = p2p_writes s
    \<and> bytes_received s' = bytes_received s + of_nat (length bytes)
    \<and> (writer s \<noteq> None \<longrightarrow> written s' = written s @ [bytes])
    \<and> (writer s = None \<or> fst (Write_result sys) \<longrightarrow> completions s' = completions s)"
    using f3 f4 t4 promote_off [OF f3(1)] promote_off [OF f4(1)] Terminate_off [of s4]
    by (cases "writer s") (simp_all add: u)
  then have off: "p2p_file_id s' = []" and gone: "p2p_dir s' f = None"
    and wr: "p2p_writes s' = p2p_writes s" by simp_all
  have B: "p2p_writes (callbacks cbs s') = p2p_writes s
    \<and> p2p_file_id (callbacks cbs s') = []
    \<and> p2p_dir (callbacks cbs s') f = None"
    using sharing_off_callbacks [OF off, of cbs f] gone wr by simp
  have C: "(writer s = None \<or> fst (Write_result sys)) \<and> VerifyPayload_result sys2 = kSuccess \<longrightarrow>
         completions (deliver (Complete sys2 True) s') = completions s @ [kSuccess]"
  proof (intro impI, elim conjE)
    assume ok: "writer s = None \<or> fst (Write_result sys)"
      and v: "VerifyPayload_result sys2 = kSuccess"
    have p: "s' = ReceivedBytes_promote sys s3 \<or> s' = ReceivedBytes_promote sys s4"
      using ok by (cases "writer s") (auto simp: u)
    then have na: "\<not> aborted s'" and c: "completions s' = completions s"
      using f3 f4 by auto
    show "completions (deliver (Complete sys2 True) s') = completions s @ [kSuccess]"
      using na c v
      by (cases "writer s'")
         (simp_all add: deliver_def TransferComplete_def Let_def ActionComplete_def
           SetOutputObject_def)
  qed
  from A B C show ?thesis by simp
qed


text \<open>
  A resumed download: the fetcher seeks to offset 100, and the first block finds the
  share file, just created, empty.
\<close>

theorem short_share_file_disables_sharing_witness:
  "p2p_file_id (run_download test_sys (test_download None) [Seek 100]) = ''cros_update_hash''
   \<and> p2p_dir (deliver (Received test_sys [1, 2])
        (run_download test_sys (test_download None) [Seek 100])) ''cros_update_hash'' = None
   \<and> p2p_writes (callbacks [Received test_sys [3], Received test_sys [4]]
        (deliver (Received test_sys [1, 2])
          (run_download test_sys (test_download None) [Seek 100]))) = []
   \<and> written (deliver (Received test_sys [1, 2])
        (run_download test_sys (test_download None) [Seek 100])) = [[1, 2]]
   \<and> completions (deliver (Complete test_sys True) (deliver (Received test_sys [1, 2])
        (run_download test_sys (test_download None) [Seek 100]))) = [kSuccess]"
proof -
  define s where "s = run_download test_sys (test_download None) [Seek 100]"
  have h: "p2p_file_id s = ''cros_update_hash''" "''cros_update_hash'' \<noteq> []" "\<not> aborted s"
    "p2p_sharing_fd s \<noteq> - 1 \<or>
       (FileShare_ok test_sys \<and> open_fd test_sys \<noteq> - 1 \<and> fchmod_ok test_sys)"
    "(if p2p_sharing_fd s = - 1
      then FileShare ''cros_update_hash'' (payload_size (da_install_plan s)) (p2p_dir s)
      else p2p_dir s) ''cros_update_hash'' = Some \<lparr>file_data = [], file_visible = False\<rparr>"
    "FileSize_ok test_sys"
    "int (length (file_data \<lparr>file_data = [], file_visible = False\<rparr>)) < sint (bytes_received s)"
    by (simp_all add: s_def download_run_simps)
  have g: "writer s \<noteq> None" "fst (Write_result test_sys)" "VerifyPayload_result test_sys = kSuccess"
    "p2p_writes s = []" "written s = []" "completions s = []"
    by (simp_all add: s_def download_run_simps)
  note T = short_share_file_disables_sharing [OF h refl,
      of "[1, 2]" "[Received test_sys [3], Received test_sys [4]]" test_sys]
  from T g
  have "p2p_dir (deliver (Received test_sys [1, 2]) s) ''cros_update_hash'' = None"
    "p2p_writes (callbacks [Received test_sys [3], Received test_sys [4]]
        (deliver (Received test_sys [1, 2]) s)) = []"
    "written (deliver (Received test_sys [1, 2]) s) = [[1, 2]]"
    "completions (deliver (Complete test_sys True) (deliver (Received test_sys [1, 2]) s))
       = [kSuccess]"
    by simp_all
  with h(1) show ?thesis unfolding s_def by blast
qed

lemma stays_visible_Close:
  "stays_visible f s \<Longrightarrow> stays_visible f (CloseP2PSharingFd del s)"
  by (auto simp: stays_visible_def unlink_def split: option.splits)

lemma stays_visible_same:
  "p2p_dir s' f = p2p_dir s f \<Longrightarrow> p2p_file_id s' = p2p_file_id s \<Longrightarrow>
   stays_visible f s' = stays_visible f s"
  by (simp add: stays_visible_def)

lemma stays_visible_FileShare:
  assumes "stays_visible f s" "p2p_file_id s \<noteq> []"
    "p2p_dir s' = FileShare (p2p_file_id s) n (p2p_dir s)" "p2p_file_id s' = p2p_file_id s"
  shows "stays_visible f s'"
  using assms
  by (auto simp: stays_visible_def FileShare_def split: option.splits if_splits)

lemma stays_visible_Setup:
  assumes "stays_visible f s" "p2p_file_id s \<noteq> []" "SetupP2PSharingFd sys s = (ok, s1)"
  shows "stays_visible f s1"
proof -
  define s2 where "s2 = s\<lparr>p2p_dir :=
       FileShare (p2p_file_id s) (payload_size (da_install_plan s)) (p2p_dir s),
       p2p_sharing_fd := open_fd sys, p2p_fd_pos := 0\<rparr>"
  have q2: "stays_visible f s2"
    by (rule stays_visible_FileShare [OF assms(1,2)]) (simp_all add: s2_def)
  have q3: "stays_visible f (case p2p_dir s2 (p2p_file_id s2) of
                  None \<Rightarrow> s2
                | Some fl \<Rightarrow> s2\<lparr>p2p_visible := file_visible fl\<rparr>)"
    using q2
    by (cases "p2p_dir s2 (p2p_file_id s2)") (auto simp: stays_visible_def split: if_splits)
  have u: "SetupP2PSharingFd sys s =
     (if \<not> FileShare_ok sys then (False, CloseP2PSharingFd True s)
      else if open_fd sys = - 1 then (False, CloseP2PSharingFd True s2)
      else if \<not> fchmod_ok sys then (False, CloseP2PSharingFd True s2)
      else (True, (case p2p_dir s2 (p2p_file_id s2) of
                  None \<Rightarrow> s2
                | Some f \<Rightarrow> s2\<lparr>p2p_visible := file_visible f\<rparr>)))"
    by (simp add: SetupP2PSharingFd_def Let_def s2_def split: option.splits)
  show ?thesis
    using assms(3) stays_visible_Close [OF assms(1), of True]
      stays_visible_Close [OF q2, of True] q3
    unfolding u by (auto split: if_splits)
qed

lemma stays_visible_Write:
  assumes q: "stays_visible f s" and ne: "p2p_file_id s \<noteq> []"
  shows "stays_visible f (WriteToP2PFile sys data off s)"
proof -
  define r where "r = (if p2p_sharing_fd s = - 1 then SetupP2PSharingFd sys s else (True, s))"
  obtain ok s1 where r: "r = (ok, s1)" by (cases r)
  have q1: "stays_visible f s1"
    using r q stays_visible_Setup [OF q ne] by (auto simp: r_def split: if_splits)
  show ?thesis
  proof (cases ok)
    case False
    then have "WriteToP2PFile sys data off s = s1"
      using r by (simp add: WriteToP2PFile_def r_def [symmetric])
    then show ?thesis using q1 by simp
  next
    case True
    define s2 where "s2 = (if 0 \<le> lseek sys (sint off)
                           then s1\<lparr>p2p_fd_pos := nat (lseek sys (sint off))\<rparr> else s1)"
    have q2: "stays_visible f s2"
      using q1 by (auto simp: s2_def stays_visible_def split: if_splits)
    have u: "WriteToP2PFile sys data off s =
       (if FileSize_fd sys s1 < 0 then CloseP2PSharingFd True s1
           else if FileSize_fd sys s1 < sint off then CloseP2PSharingFd True s1
           else if lseek sys (sint off) \<noteq> sint off then CloseP2PSharingFd True s1
           else if \<not> write_ok sys then CloseP2PSharingFd True s2
           else
                      (case p2p_dir s2 (p2p_file_id s2) of
                         None \<Rightarrow> s2
                       | Some fl \<Rightarrow>
                           s2\<lparr>p2p_dir := (p2p_dir s2)(p2p_file_id s2 \<mapsto>
                                  fl\<lparr>file_data := write_at (p2p_fd_pos s2) data (file_data fl)\<rparr>),
                              p2p_fd_pos := p2p_fd_pos s2 + length data,
                              p2p_writes := p2p_writes s2 @ [(p2p_fd_pos s2, data)]\<rparr>))"
      using r True
      by (simp add: WriteToP2PFile_def r_def [symmetric] Let_def s2_def split: option.splits)
    have q3: "stays_visible f (case p2p_dir s2 (p2p_file_id s2) of
                         None \<Rightarrow> s2
                       | Some fl \<Rightarrow>
                           s2\<lparr>p2p_dir := (p2p_dir s2)(p2p_file_id s2 \<mapsto>
                                  fl\<lparr>file_data := write_at (p2p_fd_pos s2) data (file_data fl)\<rparr>),
                              p2p_fd_pos := p2p_fd_pos s2 + length data,
                              p2p_writes := p2p_writes s2 @ [(p2p_fd_pos s2, data)]\<rparr>)"
      using q2
      by (cases "p2p_dir s2 (p2p_file_id s2)")
         (auto simp: stays_visible_def split: option.splits)
    show ?thesis
      unfolding u
      using stays_visible_Close [OF q1, of True] stays_visible_Close [OF q2, of True] q3
      by simp
  qed
qed

lemma stays_visible_promote:
  "stays_visible f s \<Longrightarrow> stays_visible f (ReceivedBytes_promote sys s)"
  by (auto simp: stays_visible_def ReceivedBytes_promote_def FileMakeVisible_def
      split: option.splits)

lemma stays_visible_Terminate:
  "stays_visible f s \<Longrightarrow> stays_visible f (DownloadAction_TerminateProcessing s)"
proof -
  assume q: "stays_visible f s"
  define s2 where "s2 = (let s1 = (case writer s of
                  None \<Rightarrow> s
                | Some w \<Rightarrow> s\<lparr>writer_closed := writer_closed s + 1, writer := None\<rparr>)
          in (if delegate s1
                then s1\<lparr>download_status := download_status s1 @ [False]\<rparr> else s1))"
  have "stays_visible f s2"
    using q
    by (cases "writer s") (auto simp: s2_def stays_visible_def Let_def split: if_splits)
  from stays_visible_Close [OF this, of False]
  have "stays_visible f ((CloseP2PSharingFd False s2)
      \<lparr>terminate_requests := terminate_requests (CloseP2PSharingFd False s2) + 1\<rparr>)"
    by (auto simp: stays_visible_def split: if_splits)
  then show ?thesis
    by (simp add: DownloadAction_TerminateProcessing_def s2_def Let_def)
qed

lemma stays_visible_Received:
  assumes q: "stays_visible f s"
  shows "stays_visible f (ReceivedBytes sys bytes s)"
proof -
  define s1 where "s1 = (if p2p_file_id s \<noteq> [] then WriteToP2PFile sys bytes (bytes_received s) s
                else s)"
  have q1: "stays_visible f s1"
    using q stays_visible_Write [OF q] by (simp add: s1_def)
  define s3 where "s3 = (if delegate s1
       then s1\<lparr>bytes_received := bytes_received s1 + of_nat (length bytes),
               progress := progress s1 @ [(bytes_received s1 + of_nat (length bytes),
                  payload_size (da_install_plan s1))]\<rparr>
       else s1\<lparr>bytes_received := bytes_received s1 + of_nat (length bytes)\<rparr>)"
  have q3: "stays_visible f s3"
    using q1 by (simp add: s3_def stays_visible_def)
  define s4 where "s4 = s3\<lparr>written := written s3 @ [bytes], code := snd (Write_result sys)\<rparr>"
  have q4: "stays_visible f s4"
    using q3 by (simp add: s4_def stays_visible_def)
  have u: "ReceivedBytes sys bytes s =
      (case writer s3 of
           None \<Rightarrow> ReceivedBytes_promote sys s3
         | Some w \<Rightarrow>
             if \<not> fst (Write_result sys) then
               DownloadAction_TerminateProcessing
                 (if p2p_file_id s4 \<noteq> [] then CloseP2PSharingFd True s4 else s4)
             else ReceivedBytes_promote sys s4)"
    by (simp add: ReceivedBytes_def Let_def s1_def [symmetric] s3_def s4_def
        split: option.splits)
  have q5: "stays_visible f (if p2p_file_id s4 \<noteq> [] then CloseP2PSharingFd True s4 else s4)"
    using q4 stays_visible_Close [OF q4, of True] by simp
  show ?thesis
    unfolding u
    using stays_visible_promote [OF q3, of sys] stays_visible_promote [OF q4, of sys]
      stays_visible_Terminate [OF q5]
    by (cases "writer s3") simp_all
qed

lemma stays_visible_Complete:
  assumes q: "stays_visible f s"
  shows "stays_visible f (TransferComplete sys successful s)"
proof -
  define s2 where "s2 = (let s1 = (case writer s of
                  None \<Rightarrow> s
                | Some w \<Rightarrow> s\<lparr>writer_closed := writer_closed s + 1, writer := None\<rparr>)
          in (if delegate s1
                then s1\<lparr>download_status := download_status s1 @ [False]\<rparr> else s1))"
  have q2: "stays_visible f s2"
    using q
    by (cases "writer s") (auto simp: s2_def stays_visible_def Let_def split: if_splits)
  define s3 where "s3 = (if successful \<and> delta_performer s2
                then s2\<lparr>verify_calls := verify_calls s2 @
                       [(payload_hash (da_install_plan s2), payload_size (da_install_plan s2))]\<rparr>
                else s2)"
  have q3: "stays_visible f s3"
    using q2 by (simp add: s3_def stays_visible_def)
  define s4 where "s4 = (if successful \<and> delta_performer s2 \<and>
                   VerifyPayload_result sys \<noteq> kSuccess \<and> p2p_file_id s3 \<noteq> []
                then CloseP2PSharingFd True s3 else s3)"
  have q4: "stays_visible f s4"
    using q3 stays_visible_Close [OF q3, of True] by (simp add: s4_def)
  define code1 where "code1 = (if successful \<and> delta_performer s2
                   then VerifyPayload_result sys
                   else if successful then kSuccess else kDownloadTransferError)"
  have u: "TransferComplete sys successful s =
      ActionComplete code1 (if code1 = kSuccess \<and> has_output_pipe s4
                then SetOutputObject (da_install_plan s4) s4 else s4)"
    by (simp add: TransferComplete_def Let_def s2_def s3_def s4_def code1_def)
  show ?thesis
    unfolding u using q4
    by (simp add: ActionComplete_def SetOutputObject_def stays_visible_def)
qed

lemma stays_visible_deliver:
  assumes q: "stays_visible f s"
  shows "stays_visible f (deliver cb s)"
proof (cases "aborted s")
  case True
  then show ?thesis using q by (simp add: deliver_def)
next
  case False
  show ?thesis
  proof (cases cb)
    case (Seek offset)
    then show ?thesis
      using q False by (simp add: deliver_def SeekToOffset_def stays_visible_def)
  next
    case (Received sys bytes)
    then show ?thesis
      using False stays_visible_Received [OF q] by (simp add: deliver_def)
  next
    case (Complete sys successful)
    then show ?thesis
      using False stays_visible_Complete [OF q] by (simp add: deliver_def)
  next
    case Terminated
    then show ?thesis
      using q False
      by (simp add: deliver_def TransferTerminated_def ActionComplete_def stays_visible_def)
  next
    case Stop
    then show ?thesis
      using False stays_visible_Terminate [OF q] by (simp add: deliver_def)
  qed
qed

lemma stays_visible_callbacks:
  "stays_visible f s \<Longrightarrow> stays_visible f (callbacks cbs s)"
proof (induction cbs arbitrary: s)
  case Nil
  then show ?case by (simp add: callbacks_def)
next
  case (Cons cb cbs)
  from Cons.IH [OF stays_visible_deliver [OF Cons.prems, of cb]]
  show ?case by (simp add: callbacks_def)
qed

lemma sharing_inv_Close: "sharing_inv s \<Longrightarrow> sharing_inv (CloseP2PSharingFd del s)"
  by (simp add: sharing_inv_def CloseP2PSharingFd_def Let_def)

lemma sharing_inv_other:
  assumes "sharing_inv s" "p2p_file_id s' = p2p_file_id s" "p2p_sharing_fd s' = p2p_sharing_fd s"
    "p2p_visible s' = p2p_visible s" "make_visible_calls s' = make_visible_calls s"
    "p2p_dir s' = p2p_dir s"
  shows "sharing_inv s'"
  using assms by (simp add: sharing_inv_def)

lemma FileShare_exists: "FileShare f n dir f \<noteq> None"
  by (simp add: FileShare_def split: option.splits)

lemma sharing_inv_Setup:
  assumes i: "sharing_inv s" and ne: "p2p_file_id s \<noteq> []" and fd: "p2p_sharing_fd s = - 1"
    and su: "SetupP2PSharingFd sys s = (ok, s1)"
  shows "sharing_inv s1"
proof -
  from i ne fd have v: "p2p_visible s" "make_visible_calls s = []"
    by (simp_all add: sharing_inv_def)
  define s2 where "s2 = s\<lparr>p2p_dir :=
       FileShare (p2p_file_id s) (payload_size (da_install_plan s)) (p2p_dir s),
       p2p_sharing_fd := open_fd sys, p2p_fd_pos := 0\<rparr>"
  have f2: "make_visible_calls s2 = []" "p2p_visible s2" "p2p_file_id s2 = p2p_file_id s"
    "p2p_dir s2 (p2p_file_id s2) \<noteq> None" "p2p_sharing_fd s2 = open_fd sys"
    using v by (simp_all add: s2_def FileShare_exists)
  have c: "sharing_inv (CloseP2PSharingFd True s)" "sharing_inv (CloseP2PSharingFd True s2)"
    using v f2 by (simp_all add: sharing_inv_def CloseP2PSharingFd_def Let_def)
  from f2(4) obtain fl where fl: "p2p_dir s2 (p2p_file_id s2) = Some fl" by auto
  have d: "open_fd sys \<noteq> - 1 \<Longrightarrow> sharing_inv (s2\<lparr>p2p_visible := file_visible fl\<rparr>)"
    using f2 fl by (simp add: sharing_inv_def)
  have u: "SetupP2PSharingFd sys s =
     (if \<not> FileShare_ok sys then (False, CloseP2PSharingFd True s)
      else if open_fd sys = - 1 then (False, CloseP2PSharingFd True s2)
      else if \<not> fchmod_ok sys then (False, CloseP2PSharingFd True s2)
      else (True, s2\<lparr>p2p_visible := file_visible fl\<rparr>))"
    using fl by (simp add: SetupP2PSharingFd_def Let_def s2_def)
  show ?thesis
    using su c d unfolding u by (auto split: if_splits)
qed

lemma sharing_inv_Write:
  assumes i: "sharing_inv s" and ne: "p2p_file_id s \<noteq> []"
  shows "sharing_inv (WriteToP2PFile sys data off s)"
proof -
  define r where "r = (if p2p_sharing_fd s = - 1 then SetupP2PSharingFd sys s else (True, s))"
  obtain ok s1 where r: "r = (ok, s1)" by (cases r)
  have i1: "sharing_inv s1"
    using r i sharing_inv_Setup [OF i ne] by (auto simp: r_def split: if_splits)
  show ?thesis
  proof (cases ok)
    case False
    then have "WriteToP2PFile sys data off s = s1"
      using r by (simp add: WriteToP2PFile_def r_def [symmetric])
    then show ?thesis using i1 by simp
  next
    case True
    define s2 where "s2 = (if 0 \<le> lseek sys (sint off)
                           then s1\<lparr>p2p_fd_pos := nat (lseek sys (sint off))\<rparr> else s1)"
    have i2: "sharing_inv s2"
      by (rule sharing_inv_other [OF i1]) (simp_all add: s2_def)
    have u: "WriteToP2PFile sys data off s =
       (if FileSize_fd sys s1 < 0 then CloseP2PSharingFd True s1
           else if FileSize_fd sys s1 < sint off then CloseP2PSharingFd True s1
           else if lseek sys (sint off) \<noteq> sint off then CloseP2PSharingFd True s1
           else if \<not> write_ok sys then CloseP2PSharingFd True s2
           else
                      (case p2p_dir s2 (p2p_file_id s2) of
                         None \<Rightarrow> s2
                       | Some fl \<Rightarrow>
                           s2\<lparr>p2p_dir := (p2p_dir s2)(p2p_file_id s2 \<mapsto>
                                  fl\<lparr>file_data := write_at (p2p_fd_pos s2) data (file_data fl)\<rparr>),
                              p2p_fd_pos := p2p_fd_pos s2 + length data,
                              p2p_writes := p2p_writes s2 @ [(p2p_fd_pos s2, data)]\<rparr>))"
      using r True
      by (simp add: WriteToP2PFile_def r_def [symmetric] Let_def s2_def split: option.splits)
    have i3: "sharing_inv (case p2p_dir s2 (p2p_file_id s2) of
                         None \<Rightarrow> s2
                       | Some fl \<Rightarrow>
                           s2\<lparr>p2p_dir := (p2p_dir s2)(p2p_file_id s2 \<mapsto>
                                  fl\<lparr>file_data := write_at (p2p_fd_pos s2) data (file_data fl)\<rparr>),
                              p2p_fd_pos := p2p_fd_pos s2 + length data,
                              p2p_writes := p2p_writes s2 @ [(p2p_fd_pos s2, data)]\<rparr>)"
      using i2
      by (cases "p2p_dir s2 (p2p_file_id s2)") (simp_all add: sharing_inv_def)
    show ?thesis
      unfolding u
      using sharing_inv_Close [OF i1, of True] sharing_inv_Close [OF i2, of True] i3
      by simp
  qed
qed

lemma sharing_inv_promote:
  "sharing_inv s \<Longrightarrow> sharing_inv (ReceivedBytes_promote sys s)"
  by (auto simp: sharing_inv_def ReceivedBytes_promote_def FileMakeVisible_def
      split: option.splits)

lemma sharing_inv_Terminate:
  assumes i: "sharing_inv s"
  shows "sharing_inv (DownloadAction_TerminateProcessing s)"
proof -
  define s2 where "s2 = (let s1 = (case writer s of
                  None \<Rightarrow> s
                | Some w \<Rightarrow> s\<lparr>writer_closed := writer_closed s + 1, writer := None\<rparr>)
          in (if delegate s1
                then s1\<lparr>download_status := download_status s1 @ [False]\<rparr> else s1))"
  have "sharing_inv s2"
    by (rule sharing_inv_other [OF i]; cases "writer s"; simp add: s2_def Let_def)
  from sharing_inv_Close [OF this, of False]
  have "sharing_inv ((CloseP2PSharingFd False s2)
      \<lparr>terminate_requests := terminate_requests (CloseP2PSharingFd False s2) + 1\<rparr>)"
    by (rule sharing_inv_other) simp_all
  then show ?thesis
    by (simp add: DownloadAction_TerminateProcessing_def s2_def Let_def)
qed

text \<open>
  \<open>ReceivedBytes\<close> in two steps: the state in which the last statement is reached, if
  it is; the file is made visible there or not at all.
\<close>

lemma ReceivedBytes_shape:
  assumes i: "sharing_inv s"
  shows "\<exists>t. sharing_inv t \<and> make_visible_calls t = make_visible_calls s \<and>
      delta_performer t = delta_performer s \<and>
      (p2p_file_id t \<noteq> [] \<longrightarrow> p2p_sharing_fd t \<noteq> - 1) \<and>
      (ReceivedBytes sys bytes s = ReceivedBytes_promote sys t \<and>
         (writer s = None \<or> fst (Write_result sys))
       \<or> ReceivedBytes sys bytes s = DownloadAction_TerminateProcessing t \<and>
         writer s \<noteq> None \<and> \<not> fst (Write_result sys))"
proof -
  define s1 where "s1 = (if p2p_file_id s \<noteq> [] then WriteToP2PFile sys bytes (bytes_received s) s
                else s)"
  have i1: "sharing_inv s1"
    using i sharing_inv_Write [OF i] by (simp add: s1_def)
  have so: "sharing_only s s1"
    using WriteToP2PFile_result [OF refl, of s sys bytes "bytes_received s"]
    by (simp add: s1_def)
  have fd1: "p2p_file_id s1 \<noteq> [] \<longrightarrow> p2p_sharing_fd s1 \<noteq> - 1"
    using WriteToP2PFile_result [OF refl, of s sys bytes "bytes_received s"]
    by (auto simp: s1_def)
  define s3 where "s3 = (if delegate s1
       then s1\<lparr>bytes_received := bytes_received s1 + of_nat (length bytes),
               progress := progress s1 @ [(bytes_received s1 + of_nat (length bytes),
                  payload_size (da_install_plan s1))]\<rparr>
       else s1\<lparr>bytes_received := bytes_received s1 + of_nat (length bytes)\<rparr>)"
  have i3: "sharing_inv s3"
    by (rule sharing_inv_other [OF i1]) (simp_all add: s3_def)
  define s4 where "s4 = s3\<lparr>written := written s3 @ [bytes], code := snd (Write_result sys)\<rparr>"
  have i4: "sharing_inv s4"
    by (rule sharing_inv_other [OF i3]) (simp_all add: s4_def)
  define s5 where "s5 = (if p2p_file_id s4 \<noteq> [] then CloseP2PSharingFd True s4 else s4)"
  have i5: "sharing_inv s5"
    using i4 sharing_inv_Close [OF i4, of True] by (simp add: s5_def)
  have f: "make_visible_calls s3 = make_visible_calls s" "delta_performer s3 = delta_performer s"
    "make_visible_calls s4 = make_visible_calls s" "delta_performer s4 = delta_performer s"
    "make_visible_calls s5 = make_visible_calls s" "delta_performer s5 = delta_performer s"
    "writer s3 = writer s"
    "p2p_file_id s3 \<noteq> [] \<longrightarrow> p2p_sharing_fd s3 \<noteq> - 1"
    "p2p_file_id s4 \<noteq> [] \<longrightarrow> p2p_sharing_fd s4 \<noteq> - 1"
    "p2p_file_id s5 \<noteq> [] \<longrightarrow> p2p_sharing_fd s5 \<noteq> - 1"
    using so fd1 by (simp_all add: s3_def s4_def s5_def sharing_only_def CloseP2PSharingFd_def Let_def)
  have u: "ReceivedBytes sys bytes s =
      (case writer s3 of
           None \<Rightarrow> ReceivedBytes_promote sys s3
         | Some w \<Rightarrow>
             if \<not> fst (Write_result sys) then DownloadAction_TerminateProcessing s5
             else ReceivedBytes_promote sys s4)"
    by (simp add: ReceivedBytes_def Let_def s1_def [symmetric] s3_def s4_def s5_def
        split: option.splits)
  show ?thesis
  proof (cases "writer s")
    case None
    then have "ReceivedBytes sys bytes s = ReceivedBytes_promote sys s3"
      using f(7) by (simp add: u)
    then show ?thesis using i3 f None by blast
  next
    case (Some w)
    show ?thesis
    proof (cases "fst (Write_result sys)")
      case True
      then have "ReceivedBytes sys bytes s = ReceivedBytes_promote sys s4"
        using f(7) Some by (simp add: u)
      then show ?thesis using i4 f True by blast
    next
      case False
      then have "ReceivedBytes sys bytes s = DownloadAction_TerminateProcessing s5"
        using f(7) Some by (simp add: u)
      then show ?thesis using i5 f False Some by blast
    qed
  qed
qed

lemma Terminate_calls [simp]:
  "make_visible_calls (DownloadAction_TerminateProcessing s) = make_visible_calls s"
  by (cases "writer s")
     (simp_all add: DownloadAction_TerminateProcessing_def Let_def CloseP2PSharingFd_def)

lemma sharing_inv_Received:
  assumes i: "sharing_inv s"
  shows "sharing_inv (ReceivedBytes sys bytes s)"
  using ReceivedBytes_shape [OF i, of sys bytes]
  by (auto simp: sharing_inv_promote sharing_inv_Terminate)

lemma Received_calls:
  assumes i: "sharing_inv s"
    and ch: "make_visible_calls (ReceivedBytes sys bytes s) \<noteq> make_visible_calls s"
  shows "IsManifestValid sys \<and> delta_performer s \<and> make_visible_calls s = []"
proof -
  from ReceivedBytes_shape [OF i, of sys bytes] ch
  obtain t where t: "sharing_inv t" "make_visible_calls t = make_visible_calls s"
    "delta_performer t = delta_performer s"
    "ReceivedBytes sys bytes s = ReceivedBytes_promote sys t"
    by auto
  from ch t(2,4) have fired: "\<not> p2p_visible t \<and> delta_performer t \<and> IsManifestValid sys"
    by (auto simp: ReceivedBytes_promote_def split: if_splits)
  with t(1) have "make_visible_calls t = []" by (auto simp: sharing_inv_def)
  with fired t(2,3) show ?thesis by simp
qed

lemma Received_promotes:
  assumes i: "sharing_inv s"
    and v: "IsManifestValid sys" and dp: "delta_performer s"
    and ok: "writer s = None \<or> fst (Write_result sys)"
  shows "p2p_visible (ReceivedBytes sys bytes s) \<and>
    (p2p_file_id (ReceivedBytes sys bytes s) \<noteq> [] \<longrightarrow>
       visible_in (p2p_dir (ReceivedBytes sys bytes s)) (p2p_file_id (ReceivedBytes sys bytes s)))"
proof -
  from ReceivedBytes_shape [OF i, of sys bytes] ok
  obtain t where t: "sharing_inv t" "delta_performer t = delta_performer s"
    "ReceivedBytes sys bytes s = ReceivedBytes_promote sys t"
    "p2p_file_id t \<noteq> [] \<longrightarrow> p2p_sharing_fd t \<noteq> - 1"
    by auto
  have "p2p_visible (ReceivedBytes_promote sys t)"
    using v dp t(2) by (simp add: ReceivedBytes_promote_def)
  moreover have "sharing_inv (ReceivedBytes_promote sys t)"
    using t(1) by (rule sharing_inv_promote)
  ultimately show ?thesis
    unfolding t(3) using t(4) by (auto simp: sharing_inv_def visible_in_def)
qed

lemma sharing_inv_Complete:
  assumes i: "sharing_inv s"
  shows "sharing_inv (TransferComplete sys successful s) \<and>
    make_visible_calls (TransferComplete sys successful s) = make_visible_calls s"
proof -
  define s2 where "s2 = (let s1 = (case writer s of
                  None \<Rightarrow> s
                | Some w \<Rightarrow> s\<lparr>writer_closed := writer_closed s + 1, writer := None\<rparr>)
          in (if delegate s1
                then s1\<lparr>download_status := download_status s1 @ [False]\<rparr> else s1))"
  have i2: "sharing_inv s2"
    by (rule sharing_inv_other [OF i]; cases "writer s"; simp add: s2_def Let_def)
  have c2: "make_visible_calls s2 = make_visible_calls s"
    by (cases "writer s"; simp add: s2_def Let_def)
  define s3 where "s3 = (if successful \<and> delta_performer s2
                then s2\<lparr>verify_calls := verify_calls s2 @
                       [(payload_hash (da_install_plan s2), payload_size (da_install_plan s2))]\<rparr>
                else s2)"
  have i3: "sharing_inv s3"
    by (rule sharing_inv_other [OF i2]) (simp_all add: s3_def)
  have c3: "make_visible_calls s3 = make_visible_calls s"
    using c2 by (simp add: s3_def)
  define s4 where "s4 = (if successful \<and> delta_performer s2 \<and>
                   VerifyPayload_result sys \<noteq> kSuccess \<and> p2p_file_id s3 \<noteq> []
                then CloseP2PSharingFd True s3 else s3)"
  have i4: "sharing_inv s4"
    using i3 sharing_inv_Close [OF i3, of True] by (simp add: s4_def)
  have c4: "make_visible_calls s4 = make_visible_calls s"
    using c3 by (simp add: s4_def CloseP2PSharingFd_def Let_def)
  define code1 where "code1 = (if successful \<and> delta_performer s2
                   then VerifyPayload_result sys
                   else if successful then kSuccess else kDownloadTransferError)"
  define s5 where "s5 = ActionComplete code1 (if code1 = kSuccess \<and> has_output_pipe s4
                then SetOutputObject (da_install_plan s4) s4 else s4)"
  have u: "TransferComplete sys successful s = s5"
    by (simp add: TransferComplete_def Let_def s2_def s3_def s4_def s5_def code1_def)
  have "sharing_inv s5"
    by (rule sharing_inv_other [OF i4])
       (simp_all add: s5_def ActionComplete_def SetOutputObject_def)
  moreover have "make_visible_calls s5 = make_visible_calls s"
    using c4 by (simp add: s5_def ActionComplete_def SetOutputObject_def)
  ultimately show ?thesis unfolding u by simp
qed

lemma sharing_inv_deliver:
  assumes i: "sharing_inv s"
  shows "sharing_inv (deliver cb s)"
proof (cases "aborted s")
  case True
  then show ?thesis using i by (simp add: deliver_def)
next
  case False
  show ?thesis
  proof (cases cb)
    case (Seek offset)
    have "sharing_inv (SeekToOffset offset s)"
      by (rule sharing_inv_other [OF i]) (simp_all add: SeekToOffset_def)
    then show ?thesis using Seek False by (simp add: deliver_def)
  next
    case (Received sys bytes)
    then show ?thesis
      using False sharing_inv_Received [OF i] by (simp add: deliver_def)
  next
    case (Complete sys successful)
    then show ?thesis
      using False sharing_inv_Complete [OF i] by (simp add: deliver_def)
  next
    case Terminated
    have "sharing_inv (TransferTerminated s)"
      by (rule sharing_inv_other [OF i]) (simp_all add: TransferTerminated_def ActionComplete_def)
    then show ?thesis using Terminated False by (simp add: deliver_def)
  next
    case Stop
    then show ?thesis
      using False sharing_inv_Terminate [OF i] by (simp add: deliver_def)
  qed
qed

lemma sharing_inv_callbacks:
  "sharing_inv s \<Longrightarrow> sharing_inv (callbacks cbs s)"
proof (induction cbs arbitrary: s)
  case Nil
  then show ?case by (simp add: callbacks_def)
next
  case (Cons cb cbs)
  from Cons.IH [OF sharing_inv_deliver [OF Cons.prems, of cb]]
  show ?case by (simp add: callbacks_def)
qed

lemma deliver_calls:
  assumes i: "sharing_inv s"
    and ch: "make_visible_calls (deliver cb s) \<noteq> make_visible_calls s"
  shows "(\<exists>sys bytes. cb = Received sys bytes \<and> IsManifestValid sys) \<and> delta_performer s \<and>
    make_visible_calls s = []"
proof -
  from ch have alive: "\<not> aborted s" by (auto simp: deliver_def)
  show ?thesis
  proof (cases cb)
    case (Seek offset)
    then show ?thesis using ch alive by (simp add: deliver_def SeekToOffset_def)
  next
    case (Received sys bytes)
    then show ?thesis
      using alive ch Received_calls [OF i, of sys bytes] by (simp add: deliver_def)
  next
    case (Complete sys successful)
    then show ?thesis
      using alive ch sharing_inv_Complete [OF i, of sys successful] by (simp add: deliver_def)
  next
    case Terminated
    then show ?thesis
      using ch alive
      by (auto simp: deliver_def TransferTerminated_def ActionComplete_def split: if_splits)
  next
    case Stop
    then show ?thesis using ch alive by (simp add: deliver_def)
  qed
qed

lemma sharing_inv_PerformAction:
  "sharing_inv (DownloadAction_PerformAction sys
     (DownloadAction_new sysstate test_writer deleg inp pipe dir))"
  by (cases inp)
     (simp_all add: sharing_inv_def DownloadAction_PerformAction_def DownloadAction_new_def
       Let_def)

lemma visible_stays: "visible_in (p2p_dir s) f \<Longrightarrow> stays_visible f s"
  by (auto simp: visible_in_def stays_visible_def)

lemma stays_not_hidden: "stays_visible f s \<Longrightarrow> \<not> hidden_in (p2p_dir s) f"
  by (auto simp: hidden_in_def stays_visible_def)

text \<open>
  Claim C8. In a run of the action from the constructor, through \<open>PerformAction\<close> and any
  callbacks: a share file that is visible in some state of the run is hidden in no later
  state; \<open>FileMakeVisible\<close> is called at most once; a callback that calls it is a
  \<open>ReceivedBytes\<close> during which the applier reports the manifest valid, the action has
  its own applier and no call was made before; and after every \<open>ReceivedBytes\<close> that
  finds the manifest valid and whose block the writer accepts, the action holds the file
  for visible, and the file it still shares is visible.
\<close>

theorem share_file_visibility:
  assumes s: "s = run_download sys (DownloadAction_new sysstate test_writer deleg inp pipe dir) cbs"
    and t: "t = callbacks later s"
  shows "(visible_in (p2p_dir s) f \<longrightarrow> \<not> hidden_in (p2p_dir t) f)
    \<and> length (make_visible_calls t) \<le> 1
    \<and> (make_visible_calls (deliver cb t) \<noteq> make_visible_calls t \<longrightarrow>
         (\<exists>sys' bytes. cb = Received sys' bytes \<and> IsManifestValid sys') \<and> delta_performer t \<and>
         make_visible_calls t = [])
    \<and> (IsManifestValid sys' \<and> delta_performer t \<and> \<not> aborted t \<and>
       (writer t = None \<or> fst (Write_result sys')) \<longrightarrow>
         p2p_visible (deliver (Received sys' bytes) t) \<and>
         (p2p_file_id (deliver (Received sys' bytes) t) \<noteq> [] \<longrightarrow>
            visible_in (p2p_dir (deliver (Received sys' bytes) t))
              (p2p_file_id (deliver (Received sys' bytes) t))))"
proof -
  have inv_s: "sharing_inv s"
    unfolding s run_download_def
    by (rule sharing_inv_callbacks [OF sharing_inv_PerformAction])
  have it: "sharing_inv t"
    unfolding t by (rule sharing_inv_callbacks [OF inv_s])
  have A: "visible_in (p2p_dir s) f \<longrightarrow> \<not> hidden_in (p2p_dir t) f"
  proof
    assume "visible_in (p2p_dir s) f"
    then have "stays_visible f s" by (rule visible_stays)
    then have "stays_visible f t" unfolding t by (rule stays_visible_callbacks)
    then show "\<not> hidden_in (p2p_dir t) f" by (rule stays_not_hidden)
  qed
  have B: "length (make_visible_calls t) \<le> 1"
    using it by (simp add: sharing_inv_def)
  have C: "make_visible_calls (deliver cb t) \<noteq> make_visible_calls t \<longrightarrow>
         (\<exists>sys' bytes. cb = Received sys' bytes \<and> IsManifestValid sys') \<and> delta_performer t \<and>
         make_visible_calls t = []"
    using deliver_calls [OF it, of cb] by blast
  have D: "IsManifestValid sys' \<and> delta_performer t \<and> \<not> aborted t \<and>
       (writer t = None \<or> fst (Write_result sys')) \<longrightarrow>
         p2p_visible (deliver (Received sys' bytes) t) \<and>
         (p2p_file_id (deliver (Received sys' bytes) t) \<noteq> [] \<longrightarrow>
            visible_in (p2p_dir (deliver (Received sys' bytes) t))
              (p2p_file_id (deliver (Received sys' bytes) t)))"
    using Received_promotes [OF it, of sys' bytes] by (simp add: deliver_def)
  from A B C D show ?thesis by blast
qed

text \<open>
  A shared download with the action's own applier: the first block creates the file,
  hidden; the manifest is valid during the second block, which makes the file visible;
  the third block leaves it visible.
\<close>

theorem share_file_visibility_witness:
  "hidden_in (p2p_dir (run_download test_sys (test_download None) [Received test_sys [1, 2]]))
     ''cros_update_hash''
   \<and> make_visible_calls
       (run_download test_sys (test_download None) [Received test_sys [1, 2]]) = []
   \<and> make_visible_calls (deliver (Received (test_sys\<lparr>IsManifestValid := True\<rparr>) [3, 4])
       (run_download test_sys (test_download None) [Received test_sys [1, 2]]))
       = [''cros_update_hash'']
   \<and> visible_in (p2p_dir (deliver (Received (test_sys\<lparr>IsManifestValid := True\<rparr>) [3, 4])
       (run_download test_sys (test_download None) [Received test_sys [1, 2]])))
       ''cros_update_hash''
   \<and> \<not> hidden_in (p2p_dir (callbacks [Received test_sys [5]]
       (run_download test_sys (test_download None)
          [Received test_sys [1, 2], Received (test_sys\<lparr>IsManifestValid := True\<rparr>) [3, 4]])))
       ''cros_update_hash''"
proof -
  define valid where "valid = test_sys\<lparr>IsManifestValid := True\<rparr>"
  define s1 where "s1 = run_download test_sys (test_download None) [Received test_sys [1, 2]]"
  define s2 where "s2 = run_download test_sys (test_download None)
      [Received test_sys [1, 2], Received valid [3, 4]]"
  have h1: "hidden_in (p2p_dir s1) ''cros_update_hash''"
    by (simp add: s1_def hidden_in_def download_run_simps)
  have g1: "IsManifestValid valid" "\<not> aborted s1" "fst (Write_result valid)"
    by (simp_all add: s1_def valid_def download_run_simps)
  have c1: "make_visible_calls (deliver (Received valid [3, 4]) s1) = [''cros_update_hash'']"
    "p2p_file_id (deliver (Received valid [3, 4]) s1) = ''cros_update_hash''"
    by (simp_all add: s1_def valid_def download_run_simps)
  have v2: "visible_in (p2p_dir s2) ''cros_update_hash''"
    by (simp add: s2_def valid_def visible_in_def download_run_simps)
  note T1 = share_file_visibility [of s1 test_sys True None False "Some (test_plan [])" True
      Map.empty "[Received test_sys [1, 2]]" s1 "[]" "''cros_update_hash''"
      "Received valid [3, 4]" valid "[3, 4]"]
  note T2 = share_file_visibility [of s2 test_sys True None False "Some (test_plan [])" True
      Map.empty "[Received test_sys [1, 2], Received valid [3, 4]]"
      "callbacks [Received test_sys [5]] s2" "[Received test_sys [5]]" "''cros_update_hash''"]
  have e1: "s1 = run_download test_sys (DownloadAction_new True None False
      (Some (test_plan [])) True Map.empty) [Received test_sys [1, 2]]"
    by (simp add: s1_def test_download_def)
  have e2: "s2 = run_download test_sys (DownloadAction_new True None False
      (Some (test_plan [])) True Map.empty) [Received test_sys [1, 2], Received valid [3, 4]]"
    by (simp add: s2_def test_download_def)
  have e0: "s1 = callbacks [] s1" by (simp add: callbacks_def)
  have ch: "make_visible_calls (deliver (Received valid [3, 4]) s1) \<noteq> make_visible_calls s1"
    by (simp add: s1_def valid_def download_run_simps)
  from T1 [OF e1 e0] ch
  have r1: "make_visible_calls s1 = []" "delta_performer s1"
    by blast+
  have ne: "p2p_file_id (deliver (Received valid [3, 4]) s1) \<noteq> []"
    by (simp add: c1(2))
  from T1 [OF e1 e0] r1(2) g1 ne
  have "visible_in (p2p_dir (deliver (Received valid [3, 4]) s1))
      (p2p_file_id (deliver (Received valid [3, 4]) s1))"
    by blast
  then have r2: "visible_in (p2p_dir (deliver (Received valid [3, 4]) s1)) ''cros_update_hash''"
    by (simp only: c1(2))
  from T2 [OF e2 refl] v2
  have r3: "\<not> hidden_in (p2p_dir (callbacks [Received test_sys [5]] s2)) ''cros_update_hash''"
    by blast
  from h1 r1(1) c1(1) r2 r3 show ?thesis
    unfolding s1_def s2_def valid_def by blast
qed

end
